theory Spec2Isabelle
  imports Main
begin

section \<open>Conversation data\<close>

text \<open>
  The orchestrator of \<^verbatim>\<open>server/live-ai-module.js\<close> keeps the conversation as an array of
  messages \<^verbatim>\<open>{role, content}\<close>. The content is a plain string or an array of typed blocks
  (\<^verbatim>\<open>text\<close>, \<^verbatim>\<open>image\<close>, \<^verbatim>\<open>tool_use\<close>, \<^verbatim>\<open>tool_result\<close>). Tool inputs and tool
  results are JSON values.
\<close>

datatype json =
    JUndefined
  | JBool bool
  | JNum int
  | JStr string
  | JArr "json list"
  | JObj "(string \<times> json) list"

datatype role = User | Assistant

text \<open>
  \<^verbatim>\<open>ToolResult id r\<close> stands for \<^verbatim>\<open>{type: 'tool_result', tool_use_id: id, content:
  JSON.stringify(r)}\<close>: the block carries the result object whose JSON text the code stores.
  \<^verbatim>\<open>ImageB d\<close> is a base64 JPEG image block with data \<^verbatim>\<open>d\<close>.
\<close>

datatype block =
    TextB string
  | ImageB string
  | ToolUse string json string
  | ToolResult string json

datatype content = Str string | Blocks "block list"

record msg =
  role :: role
  content :: content

fun is_text :: "block \<Rightarrow> bool" where
  "is_text (TextB _) = True"
| "is_text _ = False"

fun is_image :: "block \<Rightarrow> bool" where
  "is_image (ImageB _) = True"
| "is_image _ = False"

fun is_tool_use :: "block \<Rightarrow> bool" where
  "is_tool_use (ToolUse _ _ _) = True"
| "is_tool_use _ = False"

fun is_tool_result :: "block \<Rightarrow> bool" where
  "is_tool_result (ToolResult _ _) = True"
| "is_tool_result _ = False"

text \<open>\<^verbatim>\<open>b.text\<close>: the text of a text block (only read on text blocks).\<close>

fun text_of :: "block \<Rightarrow> string" where
  "text_of (TextB t) = t"
| "text_of _ = []"

text \<open>\<^verbatim>\<open>Array.isArray(c) ? c : []\<close>\<close>

fun blocks_of :: "content \<Rightarrow> block list" where
  "blocks_of (Blocks bs) = bs"
| "blocks_of (Str _) = []"

text \<open>
  A string is a list of characters with the codes 0 to 255: the model covers the JavaScript
  strings whose code units are in this range. White space as \<^verbatim>\<open>String.prototype.trim\<close>
  and the regular expression class \<^verbatim>\<open>\s\<close> see it (the white space and line terminator
  code points of the language; those above 255, such as U+2028 or U+FEFF, are not
  characters of the model): tab, line feed, vertical tab, form feed, carriage return,
  space, and the no-break space U+00A0. \<^verbatim>\<open>s.trim()\<close> is truthy exactly when \<^verbatim>\<open>s\<close> is
  not blank.
\<close>

definition is_space :: "char \<Rightarrow> bool" where
  "is_space c = (c = CHR 0x09 \<or> c = CHR 0x0A \<or> c = CHR 0x0B \<or> c = CHR 0x0C
                 \<or> c = CHR 0x0D \<or> c = CHR 0x20 \<or> c = CHR 0xA0)"

definition blank :: "string \<Rightarrow> bool" where
  "blank s = list_all is_space s"

section \<open>Sanitization of orphaned tool calls\<close>

definition interrupted_placeholder :: string where
  "interrupted_placeholder = ''[Response interrupted by user]''"

text \<open>
  \<^verbatim>\<open>next && next.role === 'user' && nextBlocks.some(b => b.type === 'tool_result')\<close> for
  the message after index \<^verbatim>\<open>i\<close> (\<^verbatim>\<open>conv[i + 1]\<close> is undefined past the end).
\<close>

definition valid_pair :: "msg list \<Rightarrow> nat \<Rightarrow> bool" where
  "valid_pair conv i =
     (Suc i < length conv \<and> role (conv ! Suc i) = User
      \<and> list_ex is_tool_result (blocks_of (content (conv ! Suc i))))"

text \<open>The replacement content of an orphaned assistant message with blocks \<^verbatim>\<open>blocks\<close>.\<close>

definition stripped_content :: "block list \<Rightarrow> content" where
  "stripped_content blocks =
     (let textBlocks = filter is_text blocks in
      if textBlocks \<noteq> [] \<and> list_ex (\<lambda>b. \<not> blank (text_of b)) textBlocks
      then (if length textBlocks = 1 then Str (text_of (hd textBlocks)) else Blocks textBlocks)
      else Str interrupted_placeholder)"

text \<open>One iteration of the loop of \<^verbatim>\<open>sanitizeConversation\<close>, at an index inside the array.\<close>

definition sanitize_at :: "nat \<Rightarrow> msg list \<Rightarrow> msg list" where
  "sanitize_at i conv =
     (let m = conv ! i in
      if role m \<noteq> Assistant then conv
      else let blocks = blocks_of (content m) in
        if \<not> list_ex is_tool_use blocks then conv
        else if valid_pair conv i then conv
        else conv[i := m\<lparr>content := stripped_content blocks\<rparr>])"

text \<open>
  \<^verbatim>\<open>for (let i = length - 1; i >= 0; i--)\<close>: \<^verbatim>\<open>sanitize_from n\<close> runs the iterations
  \<^verbatim>\<open>n - 1, ..., 0\<close> in this order.
\<close>

fun sanitize_from :: "nat \<Rightarrow> msg list \<Rightarrow> msg list" where
  "sanitize_from 0 conv = conv"
| "sanitize_from (Suc i) conv = sanitize_from i (sanitize_at i conv)"

definition sanitizeConversation :: "msg list \<Rightarrow> msg list" where
  "sanitizeConversation conv = sanitize_from (length conv) conv"

section \<open>Pruning of old images\<close>

definition MAX_CONTEXT_IMAGES :: nat where
  "MAX_CONTEXT_IMAGES = 10"

text \<open>\<^verbatim>\<open>Array.isArray(msg.content) && msg.content.some(b => b.type === 'image')\<close>\<close>

definition has_image :: "msg \<Rightarrow> bool" where
  "has_image m = list_ex is_image (blocks_of (content m))"

definition imageIndices :: "msg list \<Rightarrow> nat list" where
  "imageIndices conv = filter (\<lambda>i. has_image (conv ! i)) [0..<length conv]"

text \<open>The body of the stripping loop for one message.\<close>

definition strip_images :: "msg \<Rightarrow> msg" where
  "strip_images m =
     (let textBlocks = filter (\<lambda>b. \<not> is_image b) (blocks_of (content m)) in
      if length textBlocks = 1 \<and> is_text (hd textBlocks)
      then m\<lparr>content := Str (text_of (hd textBlocks))\<rparr>
      else m\<lparr>content := Blocks textBlocks\<rparr>)"

definition strip_at :: "nat \<Rightarrow> msg list \<Rightarrow> msg list" where
  "strip_at idx conv = conv[idx := strip_images (conv ! idx)]"

definition pruneOldImages :: "msg list \<Rightarrow> msg list" where
  "pruneOldImages conv =
     (let idxs = imageIndices conv in
      if length idxs \<le> MAX_CONTEXT_IMAGES then conv
      else fold strip_at (take (length idxs - MAX_CONTEXT_IMAGES) idxs) conv)"

section \<open>Tutorials, emitted events and observable actions\<close>

record lesson_step =
  stepNumber :: int
  title :: string
  instruction :: string

record tutorial =
  objectLabel :: string
  totalSteps :: int
  steps :: "lesson_step list"

text \<open>The events the module sends to the client with \<^verbatim>\<open>socket.emit\<close>.\<close>

datatype emitted =
    SessionStarted
  | UserText string
  | AgentText string
  | AgentTextContinue string
  | AgentAudio string
  | InterruptEv
  | TutorialLoading json
  | TutorialReady tutorial
  | TutorialError string
  | StepUpdate json json int
  | HotkeyDisplay json json

text \<open>The places where the recurring check tests its cancellation flag, in source order.\<close>

datatype checkpoint =
    AfterResponse | RoundStart | AfterTts | DuringTools | BeforeFollowup | BeforeCommit

text \<open>
  What the module does to the outside, in the order it does it: events sent to the client,
  calls of the generator (\<^verbatim>\<open>getStreamingResponse\<close>, \<^verbatim>\<open>getResponse\<close>, each with the
  messages it is given; the system prompt and the tool list enter no property here),
  calls of the synthesizer, calls of the tool dispatcher and of the lesson creator, and the
  two kinds of log line of the recurring check (cancelled at a checkpoint, no guidance
  needed).
\<close>

datatype action =
    Emit emitted
  | StreamingRequest "msg list"
  | Request "msg list"
  | ClaudeAbortStream
  | TtsSendTextChunk string
  | TtsSendText string
  | TtsFlush
  | TtsCloseStream
  | TtsInterrupt
  | ToolCall string json string
  | Generate json json
  | CheckCancelled checkpoint
  | NoGuidanceNeeded

section \<open>The module state\<close>

text \<open>
  The module is single threaded: an \<^verbatim>\<open>async\<close> function runs until its next
  \<^verbatim>\<open>await\<close> of an outside operation and is resumed when that operation settles. A
  \<^verbatim>\<open>task\<close> is the \<^verbatim>\<open>await\<close> at which the running cycle is parked, with the local
  variables it needs afterwards; a \<^verbatim>\<open>frame\<close> is a caller that awaits a call of
  \<^verbatim>\<open>sendToClaudeAndSpeak\<close>.
\<close>

datatype task =
    AwaitStream bool string
      \<comment> \<open>line 190, \<^verbatim>\<open>getStreamingResponse\<close>: isContinuation, fullText\<close>
  | AwaitFlushSend bool string "block list"
      \<comment> \<open>line 210, \<^verbatim>\<open>tts.sendTextChunk\<close>: isContinuation, fullText, response.content\<close>
  | AwaitToolMain block "block list" "block list"
      \<comment> \<open>line 237, tutorial generation: the tool use, those still to run, toolResults\<close>
  | AwaitCheckResponse content
      \<comment> \<open>line 505, \<^verbatim>\<open>getResponse\<close>: userContent\<close>
  | AwaitCheckTts "msg list" "block list" nat
      \<comment> \<open>line 542, \<^verbatim>\<open>tts.sendText\<close>: messagesToCommit, toolUseBlocks, round\<close>
  | AwaitCheckTool block "block list" "block list" "msg list" bool nat
      \<comment> \<open>line 562: the tool use, those still to run, toolResults, messagesToCommit,
          isFirstText, round\<close>
  | AwaitFollowup "msg list" bool nat
      \<comment> \<open>line 581, \<^verbatim>\<open>getResponse\<close>: messagesToCommit, isFirstText, round\<close>

datatype frame =
    FrStartSession    \<comment> \<open>\<^verbatim>\<open>startSession\<close>, line 106\<close>
  | FrCommitted       \<comment> \<open>\<^verbatim>\<open>onCommittedTranscript\<close>, line 170\<close>
  | FrToolRound       \<comment> \<open>\<^verbatim>\<open>sendToClaudeAndSpeak\<close>, line 254\<close>
  | FrFinally         \<comment> \<open>\<^verbatim>\<open>sendToClaudeAndSpeak\<close>, line 273\<close>
  | FrCheckFinally    \<comment> \<open>the recurring check, line 612\<close>

text \<open>
  The part of the agent configuration (a JSON file that is not among the sources) that the
  control flow reads: \<^verbatim>\<open>recurringCheck.enabled\<close> and \<^verbatim>\<open>recurringCheck.idleThresholdMs\<close>.
\<close>

record config =
  recurringEnabled :: bool
  idleThresholdMs :: nat

record orch =
  config :: config
  toolType :: "string option"
  conversation :: "msg list"
  latestFrame :: "string option"
  lastUserInputAt :: nat
  isAgentCurrentlySpeaking :: bool
  recurringCheckInterval :: bool
  isRecurringCheckRunning :: bool
  recurringCheckCancelled :: bool
  isProcessing :: bool
  interrupted :: bool
  hasPendingUserMessage :: bool
  sentenceBuffer :: string
  currentTutorial :: "tutorial option"
  currentStepIndex :: "int option"
  trace :: "action list"
  task :: "task option"
  stack :: "frame list"

text \<open>
  The state the constructor leaves. \<^verbatim>\<open>toolType\<close> is set by the first \<^verbatim>\<open>startSession\<close>,
  which also creates the synthesizer and connects the transcript source.
  \<^verbatim>\<open>currentStepIndex\<close> is a number; \<^verbatim>\<open>None\<close> stands for \<^verbatim>\<open>NaN\<close> (and for
  a number with a fractional part, see \<^verbatim>\<open>handleProgressedStep\<close>).
\<close>

definition init :: "config \<Rightarrow> orch" where
  "init cfg = \<lparr>config = cfg, toolType = None, conversation = [], latestFrame = None,
     lastUserInputAt = 0, isAgentCurrentlySpeaking = False, recurringCheckInterval = False,
     isRecurringCheckRunning = False, recurringCheckCancelled = False, isProcessing = False,
     interrupted = False, hasPendingUserMessage = False, sentenceBuffer = [],
     currentTutorial = None, currentStepIndex = Some 0, trace = [], task = None, stack = []\<rparr>"

definition log :: "action \<Rightarrow> orch \<Rightarrow> orch" where
  "log a s = s\<lparr>trace := trace s @ [a]\<rparr>"

definition push_msg :: "msg \<Rightarrow> orch \<Rightarrow> orch" where
  "push_msg m s = s\<lparr>conversation := conversation s @ [m]\<rparr>"

definition suspend :: "task \<Rightarrow> orch \<Rightarrow> orch" where
  "suspend t s = s\<lparr>task := Some t\<rparr>"

text \<open>Leaving the \<^verbatim>\<open>try\<close> block of a cycle (by \<^verbatim>\<open>return\<close>, by its end or by a throw).\<close>

definition leave :: "orch \<Rightarrow> orch" where
  "leave s = s\<lparr>task := None\<rparr>"

section \<open>Sentence-boundary streaming\<close>

definition is_terminator :: "char \<Rightarrow> bool" where
  "is_terminator c = (c = CHR ''.'' \<or> c = CHR ''!'' \<or> c = CHR ''?'')"

text \<open>\<^verbatim>\<open>/[.!?]\s/.exec(buf)\<close>: the index of the leftmost match, if there is one.\<close>

fun find_sentence_end :: "string \<Rightarrow> nat option" where
  "find_sentence_end (c # d # cs) =
     (if is_terminator c \<and> is_space d then Some 0
      else map_option Suc (find_sentence_end (d # cs)))"
| "find_sentence_end _ = None"

lemma find_sentence_end_bound: "find_sentence_end buf = Some i \<Longrightarrow> i + 2 \<le> length buf"
  by (induction buf arbitrary: i rule: find_sentence_end.induct) (auto split: if_splits)

text \<open>
  The \<^verbatim>\<open>while\<close> loop of \<^verbatim>\<open>handleTextChunkForTTS\<close>: the sentences it sends and the buffer
  it leaves. The flag is the value of \<^verbatim>\<open>this.interrupted\<close>, which nothing changes while
  the loop runs.
\<close>

function dispatch_sentences :: "bool \<Rightarrow> string \<Rightarrow> string list \<times> string" where
  "dispatch_sentences intr buf =
     (case find_sentence_end buf of
        None \<Rightarrow> ([], buf)
      | Some i \<Rightarrow>
          if intr then ([], buf)
          else (case dispatch_sentences intr (drop (i + 2) buf) of
                  (ss, rest) \<Rightarrow> (take (i + 2) buf # ss, rest)))"
  by pat_completeness auto
termination
proof (relation "measure (\<lambda>(intr, buf). length buf)")
  show "wf (measure (\<lambda>(intr, buf). length buf))" by simp
next
  fix intr :: bool and buf :: string and i :: nat
  assume "find_sentence_end buf = Some i"
  then have "i + 2 \<le> length buf" by (rule find_sentence_end_bound)
  then show "((intr, drop (i + 2) buf), (intr, buf)) \<in> measure (\<lambda>(intr, buf). length buf)"
    by simp
qed

definition handleTextChunkForTTS :: "string \<Rightarrow> orch \<Rightarrow> orch" where
  "handleTextChunkForTTS chunk s =
     (if interrupted s then s
      else case dispatch_sentences (interrupted s) (sentenceBuffer s @ chunk) of
             (ss, rest) \<Rightarrow> s\<lparr>sentenceBuffer := rest,
                               trace := trace s @ map TtsSendTextChunk ss\<rparr>)"

section \<open>Interruption and the synchronous event handlers\<close>

definition handleInterruption :: "orch \<Rightarrow> orch" where
  "handleInterruption s =
     s\<lparr>interrupted := True, recurringCheckCancelled := True,
       trace := trace s @ [ClaudeAbortStream, TtsInterrupt, Emit InterruptEv],
       isAgentCurrentlySpeaking := False\<rparr>"

definition onPartialTranscript :: "string \<Rightarrow> orch \<Rightarrow> orch" where
  "onPartialTranscript text s =
     (if blank text then s
      else if isAgentCurrentlySpeaking s \<or> isProcessing s \<or> isRecurringCheckRunning s
      then handleInterruption s else s)"

definition onTTSAudioChunk :: "string \<Rightarrow> orch \<Rightarrow> orch" where
  "onTTSAudioChunk base64 s =
     (if interrupted s then s
      else s\<lparr>trace := trace s @ [Emit (AgentAudio base64)], isAgentCurrentlySpeaking := True\<rparr>)"

text \<open>\<^verbatim>\<open>!this.latestFrame\<close> holds for \<^verbatim>\<open>null\<close> and for the empty string.\<close>

definition frame_present :: "orch \<Rightarrow> bool" where
  "frame_present s = (case latestFrame s of None \<Rightarrow> False | Some f \<Rightarrow> f \<noteq> [])"

definition buildUserContent :: "string \<Rightarrow> orch \<Rightarrow> content" where
  "buildUserContent text s =
     (case latestFrame s of
        None \<Rightarrow> Str text
      | Some f \<Rightarrow> if f = [] then Str text else Blocks [ImageB f, TextB text])"

section \<open>Numbers and their text\<close>

text \<open>
  The numbers of the program are IEEE 754 doubles. The model carries the whole ones: an integer
  stands for the double nearest to it, and the integers from \<open>2 ^ 1024\<close> on stand for
  \<^verbatim>\<open>Infinity\<close> (\<^verbatim>\<open>to_double\<close> takes there every integer too large for a finite
  double). Where a number is the result of a conversion, \<^verbatim>\<open>None\<close> stands for
  \<^verbatim>\<open>NaN\<close> and also for a number with a fractional part, which the integers of the
  model cannot carry.

  \<^verbatim>\<open>nearest_double m d\<close> rounds the positive quotient \<open>m / d\<close> to the nearest double,
  ties to the even significand, with 53 bits above \<open>2 ^ -1022\<close> and steps of
  \<open>2 ^ -1074\<close> below; the result is given when it is a whole number.
\<close>

fun bit_length :: "nat \<Rightarrow> nat" where
  "bit_length n = (if n = 0 then 0 else Suc (bit_length (n div 2)))"

definition nearest_double :: "nat \<Rightarrow> nat \<Rightarrow> nat option" where
  "nearest_double m d =
     (if m = 0 then Some 0
      else let e = (if d \<le> m then int (bit_length (m div d)) - 1
                    else let k = bit_length d - bit_length m
                         in if d \<le> m * 2 ^ k then - int k else - int k - 1);
               sh = max (e - 52) (- 1074);
               n = (if sh < 0 then m * 2 ^ nat (- sh) else m);
               dd = (if sh < 0 then d else d * 2 ^ nat sh);
               q = n div dd;
               r = n mod dd;
               q' = (if dd < 2 * r \<or> (2 * r = dd \<and> odd q) then q + 1 else q)
           in if 0 \<le> sh then Some (q' * 2 ^ nat sh)
              else if q' mod 2 ^ nat (- sh) = 0 then Some (q' div 2 ^ nat (- sh))
              else None)"

definition to_double :: "int \<Rightarrow> int" where
  "to_double i = (case nearest_double (nat \<bar>i\<bar>) 1 of
                    None \<Rightarrow> i
                  | Some a \<Rightarrow> if i < 0 then - int a else int a)"

fun show_nat :: "nat \<Rightarrow> string" where
  "show_nat n = (if n < 10 then [''0123456789'' ! n]
                 else show_nat (n div 10) @ [''0123456789'' ! (n mod 10)])"

text \<open>
  \<^verbatim>\<open>Number::toString\<close>, which a template literal applies to a number: the digits are the
  shortest decimal that the double is the nearest double of (the nearest such decimal if
  there are several), written in full with trailing zeros up to 21 digits and with an exponent
  beyond. \<^verbatim>\<open>shortest a\<close> is that decimal for a double \<open>a\<close> of at least
  \<open>2 ^ 53\<close>; below, a whole double prints as the integer it is.
\<close>

definition shortest :: "nat \<Rightarrow> nat" where
  "shortest a =
     (let n = length (show_nat a);
          ulp = 2 ^ (bit_length a - 53);
          lo4 = (if a = 2 ^ (bit_length a - 1) then ulp else 2 * ulp);
          hi4 = 2 * ulp;
          incl = even (a div ulp);
          valid = (\<lambda>v. if v \<le> a then 4 * (a - v) < lo4 \<or> (4 * (a - v) = lo4 \<and> incl)
                       else 4 * (v - a) < hi4 \<or> (4 * (v - a) = hi4 \<and> incl));
          cands = (\<lambda>k. filter valid [(a div 10 ^ (n - k)) * 10 ^ (n - k),
                                       (a div 10 ^ (n - k) + 1) * 10 ^ (n - k)])
      in case filter (\<lambda>k. cands k \<noteq> []) [1..<18] of
           [] \<Rightarrow> a
         | k # _ \<Rightarrow>
             (case cands k of
                [v1, v2] \<Rightarrow> if a - v1 < v2 - a then v1
                            else if v2 - a < a - v1 then v2
                            else if even (v1 div 10 ^ (n - k)) then v1 else v2
              | v # _ \<Rightarrow> v
              | [] \<Rightarrow> a))"

definition strip_zeros :: "string \<Rightarrow> string" where
  "strip_zeros ds = rev (dropWhile (\<lambda>c. c = CHR ''0'') (rev ds))"

definition exponent_text :: "nat \<Rightarrow> string" where
  "exponent_text v =
     (let ds = strip_zeros (show_nat v)
      in take 1 ds @ (if 1 < length ds then ''.'' @ drop 1 ds else [])
         @ ''e+'' @ show_nat (length (show_nat v) - 1))"

definition number_text :: "int \<Rightarrow> string" where
  "number_text i =
     (let a = nat \<bar>to_double i\<bar>;
          sign = (if i < 0 then ''-'' else [])
      in if 2 ^ 1024 \<le> a then sign @ ''Infinity''
         else if a < 2 ^ 53 then sign @ show_nat a
         else let v = shortest a
              in if length (show_nat v) \<le> 21 then sign @ show_nat v
                 else sign @ exponent_text v)"

text \<open>
  \<^verbatim>\<open>StringToNumber\<close>, which \<^verbatim>\<open>-\<close> applies to a string operand: white space is
  trimmed, the empty string is 0, then a hexadecimal, octal or binary literal, or a signed
  decimal literal with optional fraction and exponent, or \<^verbatim>\<open>Infinity\<close>; anything else
  is \<^verbatim>\<open>NaN\<close>.
\<close>

definition trim_str :: "string \<Rightarrow> string" where
  "trim_str s = rev (dropWhile is_space (rev (dropWhile is_space s)))"

definition digit_of :: "char \<Rightarrow> nat option" where
  "digit_of c =
     (let n = (of_char c :: nat)
      in if 48 \<le> n \<and> n \<le> 57 then Some (n - 48)
         else if 97 \<le> n \<and> n \<le> 102 then Some (n - 87)
         else if 65 \<le> n \<and> n \<le> 70 then Some (n - 55)
         else None)"

definition is_digit_in :: "nat \<Rightarrow> char \<Rightarrow> bool" where
  "is_digit_in b c = (case digit_of c of None \<Rightarrow> False | Some d \<Rightarrow> d < b)"

definition digits_value :: "nat \<Rightarrow> string \<Rightarrow> nat option" where
  "digits_value b cs =
     (if cs = [] \<or> \<not> list_all (is_digit_in b) cs then None
      else Some (foldl (\<lambda>acc c. acc * b + (case digit_of c of None \<Rightarrow> 0 | Some d \<Rightarrow> d)) 0 cs))"

definition exponent_value :: "string \<Rightarrow> int option" where
  "exponent_value r =
     (if r = [] then Some 0
      else if take 1 r = ''e'' \<or> take 1 r = ''E''
      then (let r' = drop 1 r;
                ds = (if take 1 r' = ''+'' \<or> take 1 r' = ''-'' then drop 1 r' else r')
            in case digits_value 10 ds of
                 None \<Rightarrow> None
               | Some v \<Rightarrow> Some (if take 1 r' = ''-'' then - int v else int v))
      else None)"

definition scaled :: "nat \<Rightarrow> int \<Rightarrow> nat option" where
  "scaled m sc = (if 0 \<le> sc then nearest_double (m * 10 ^ nat sc) 1
                  else nearest_double m (10 ^ nat (- sc)))"

definition decimal_value :: "string \<Rightarrow> int option" where
  "decimal_value t =
     (let body = (if take 1 t = ''+'' \<or> take 1 t = ''-'' then drop 1 t else t);
          ip = takeWhile (is_digit_in 10) body;
          r1 = dropWhile (is_digit_in 10) body;
          fp = (if take 1 r1 = ''.'' then takeWhile (is_digit_in 10) (drop 1 r1) else []);
          r3 = (if take 1 r1 = ''.'' then dropWhile (is_digit_in 10) (drop 1 r1) else r1);
          v = (if body = ''Infinity'' then Some (2 ^ 1024)
               else if ip = [] \<and> fp = [] then None
               else case (digits_value 10 (ip @ fp), exponent_value r3) of
                      (Some m, Some e) \<Rightarrow> scaled m (e - int (length fp))
                    | _ \<Rightarrow> None)
      in case v of
           None \<Rightarrow> None
         | Some a \<Rightarrow> Some (if take 1 t = ''-'' then - int a else int a))"

definition string_to_number :: "string \<Rightarrow> int option" where
  "string_to_number s =
     (let t = trim_str s;
          p = take 2 t
      in if t = [] then Some 0
         else if p = ''0x'' \<or> p = ''0X'' then map_option (\<lambda>v. to_double (int v)) (digits_value 16 (drop 2 t))
         else if p = ''0o'' \<or> p = ''0O'' then map_option (\<lambda>v. to_double (int v)) (digits_value 8 (drop 2 t))
         else if p = ''0b'' \<or> p = ''0B'' then map_option (\<lambda>v. to_double (int v)) (digits_value 2 (drop 2 t))
         else decimal_value t)"

text \<open>
  \<^verbatim>\<open>ToString\<close> of a JSON value, as in a template literal: an array prints its elements
  joined by commas, with nothing for \<^verbatim>\<open>undefined\<close>, and an object prints as
  \<^verbatim>\<open>[object Object]\<close> (a property named \<^verbatim>\<open>toString\<close> is given no special meaning).
  \<^verbatim>\<open>ToNumber\<close> of a JSON value, as in \<^verbatim>\<open>current_step - 1\<close>: an array is converted
  through its text.
\<close>

fun join_comma :: "string list \<Rightarrow> string" where
  "join_comma [] = []"
| "join_comma [x] = x"
| "join_comma (x # y # r) = x @ '','' @ join_comma (y # r)"

fun js_text :: "json \<Rightarrow> string" where
  "js_text JUndefined = ''undefined''"
| "js_text (JBool b) = (if b then ''true'' else ''false'')"
| "js_text (JNum n) = number_text n"
| "js_text (JStr s) = s"
| "js_text (JArr xs) = join_comma (map (\<lambda>x. if x = JUndefined then [] else js_text x) xs)"
| "js_text (JObj kvs) = ''[object Object]''"

fun to_number :: "json \<Rightarrow> int option" where
  "to_number JUndefined = None"
| "to_number (JBool b) = Some (if b then 1 else 0)"
| "to_number (JNum n) = Some (to_double n)"
| "to_number (JStr s) = string_to_number s"
| "to_number (JArr xs) = string_to_number (js_text (JArr xs))"
| "to_number (JObj kvs) = None"

section \<open>The tool dispatcher\<close>

text \<open>Reading a property of a tool input; a missing property is \<^verbatim>\<open>undefined\<close>.\<close>

fun field :: "string \<Rightarrow> json \<Rightarrow> json" where
  "field k (JObj kvs) = (case map_of kvs k of Some v \<Rightarrow> v | None \<Rightarrow> JUndefined)"
| "field k _ = JUndefined"

text \<open>\<^verbatim>\<open>this.currentTutorial?.steps?.[this.currentStepIndex]\<close>\<close>

definition step_at :: "tutorial option \<Rightarrow> int option \<Rightarrow> lesson_step option" where
  "step_at t idx =
     (case t of
        None \<Rightarrow> None
      | Some tu \<Rightarrow>
          (case idx of
             None \<Rightarrow> None
           | Some i \<Rightarrow> if 0 \<le> i \<and> nat i < length (steps tu) then Some (steps tu ! nat i)
                       else None))"

text \<open>
  \<^verbatim>\<open>handleProgressedStep\<close>. \<^verbatim>\<open>current_step - 1\<close> converts \<^verbatim>\<open>current_step\<close>
  to a number and rounds the difference to a double. The new index is \<^verbatim>\<open>None\<close> when
  the conversion gives \<^verbatim>\<open>NaN\<close>, and also when it gives a number with a fractional part
  (the tool schema declares the steps as integers): the model is exact for every
  \<^verbatim>\<open>current_step\<close> that converts to a whole number, to an infinity or to \<^verbatim>\<open>NaN\<close>.
\<close>

definition handleProgressedStep :: "json \<Rightarrow> orch \<Rightarrow> json \<times> orch" where
  "handleProgressedStep args s =
     (let previous_step = field ''previous_step'' args;
          current_step = field ''current_step'' args;
          idx = map_option (\<lambda>n. to_double (n - 1)) (to_number current_step);
          total = (case currentTutorial s of None \<Rightarrow> 0 | Some tu \<Rightarrow> totalSteps tu);
          s' = s\<lparr>currentStepIndex := idx,
                 trace := trace s @ [Emit (StepUpdate previous_step current_step total)]\<rparr>;
          st = step_at (currentTutorial s') idx
      in (JObj [(''success'', JBool True), (''currentStep'', current_step),
                (''stepTitle'', JStr (case st of None \<Rightarrow> ''Unknown''
                    | Some x \<Rightarrow> if title x = [] then ''Unknown'' else title x)),
                (''stepInstruction'', JStr (case st of None \<Rightarrow> [] | Some x \<Rightarrow> instruction x))],
          s'))"

definition handleSuggestedHotKey :: "json \<Rightarrow> orch \<Rightarrow> json \<times> orch" where
  "handleSuggestedHotKey args s =
     (JObj [(''displayed'', JBool True)],
      log (Emit (HotkeyDisplay (field ''key_combo'' args) (field ''description'' args))) s)"

text \<open>
  \<^verbatim>\<open>handleCreateTutorial\<close> up to its \<^verbatim>\<open>await\<close> of the lesson creator, and from there on
  for the two ways the lesson creator can settle.
\<close>

definition createTutorial_start :: "json \<Rightarrow> orch \<Rightarrow> orch" where
  "createTutorial_start args s =
     s\<lparr>trace := trace s @ [Emit (TutorialLoading (field ''object_label'' args)),
          Generate (field ''object_label'' args) (field ''proficiency'' args)]\<rparr>"

definition step_json :: "lesson_step \<Rightarrow> json" where
  "step_json x = JObj [(''stepNumber'', JNum (stepNumber x)), (''title'', JStr (title x)),
                       (''instruction'', JStr (instruction x))]"

definition createTutorial_ready :: "tutorial \<Rightarrow> orch \<Rightarrow> json \<times> orch" where
  "createTutorial_ready tu s =
     (JObj [(''success'', JBool True),
            (''message'', JStr (''Tutorial is ready! Announce it to the user enthusiastically. Tell them you'll be building a ''
                @ objectLabel tu @ '' in '' @ number_text (totalSteps tu)
                @ '' steps, and ask if they're ready to start.'')),
            (''objectLabel'', JStr (objectLabel tu)),
            (''totalSteps'', JNum (totalSteps tu)),
            (''steps'', JArr (map step_json (steps tu)))],
      s\<lparr>currentTutorial := Some tu, currentStepIndex := Some 0,
        trace := trace s @ [Emit (TutorialReady tu)]\<rparr>)"

definition createTutorial_failed :: "string \<Rightarrow> orch \<Rightarrow> json \<times> orch" where
  "createTutorial_failed err s =
     (JObj [(''success'', JBool False), (''error'', JStr err)],
      log (Emit (TutorialError err)) s)"

text \<open>
  \<^verbatim>\<open>handleToolCall\<close>: the promise it returns is either settled with a result object when
  control comes back to the caller's \<^verbatim>\<open>await\<close>, or waits for the lesson creator, or is
  rejected: the three handlers destructure their argument in the parameter list, which
  throws a \<^verbatim>\<open>TypeError\<close> for a tool-use block without an input, before any effect. No
  handler catches it, so it reaches the \<^verbatim>\<open>catch\<close> clause of the cycle.
\<close>

datatype tool_ret = Returned json | AwaitingGenerate | Threw

definition handleToolCall :: "string \<Rightarrow> json \<Rightarrow> string \<Rightarrow> orch \<Rightarrow> tool_ret \<times> orch" where
  "handleToolCall name args tid s =
     (if name = ''Create_Tutorial''
      then (if args = JUndefined then (Threw, s)
            else (AwaitingGenerate, createTutorial_start args s))
      else if name = ''Progressed_Step''
      then (if args = JUndefined then (Threw, s)
            else case handleProgressedStep args s of (r, s') \<Rightarrow> (Returned r, s'))
      else if name = ''Suggested_HotKey''
      then (if args = JUndefined then (Threw, s)
            else case handleSuggestedHotKey args s of (r, s') \<Rightarrow> (Returned r, s'))
      else (Returned (JObj [(''error'', JStr (''Unknown tool: '' @ name))]), s))"

section \<open>The main generation cycle\<close>

text \<open>
  \<^verbatim>\<open>sendToClaudeAndSpeak\<close> from its entry to its first \<^verbatim>\<open>await\<close>. The flag returned says
  whether a cycle was started (the call is parked at \<^verbatim>\<open>getStreamingResponse\<close>) or the call
  returned at once because a cycle was processing.
\<close>

definition sendToClaudeAndSpeak :: "bool \<Rightarrow> orch \<Rightarrow> bool \<times> orch" where
  "sendToClaudeAndSpeak isContinuation s =
     (if isProcessing s then (False, s)
      else let conv = pruneOldImages (sanitizeConversation (conversation s)) in
        (True, s\<lparr>isProcessing := True, interrupted := False, conversation := conv,
                 sentenceBuffer := [], trace := trace s @ [StreamingRequest conv],
                 task := Some (AwaitStream isContinuation [])\<rparr>))"

text \<open>Lines 245 to 258, after the loop over the tool-use blocks.\<close>

definition main_after_tools :: "block list \<Rightarrow> orch \<Rightarrow> orch" where
  "main_after_tools toolResults s =
     (if \<not> interrupted s
      then (case sendToClaudeAndSpeak True
                   ((push_msg \<lparr>role = User, content = Blocks toolResults\<rparr> s)\<lparr>isProcessing := False\<rparr>) of
              (started, s') \<Rightarrow> if started then s'\<lparr>stack := FrToolRound # stack s'\<rparr> else leave s')
      else leave s)"

text \<open>
  The loop of lines 231 to 243 over the tool-use blocks still to run. Line 236 logs
  \<^verbatim>\<open>JSON.stringify(toolUse.input).substring(0, 80)\<close>: for a tool-use block without an
  input \<^verbatim>\<open>JSON.stringify\<close> gives \<^verbatim>\<open>undefined\<close> and the line throws a \<^verbatim>\<open>TypeError\<close>
  before the dispatcher is called. A tool whose handler does not wait is finished before any
  other event is handled; the tutorial tool parks the cycle; a throw takes the cycle to its
  \<^verbatim>\<open>catch\<close> clause, which only logs.
\<close>

fun main_tools :: "block list \<Rightarrow> block list \<Rightarrow> orch \<Rightarrow> orch" where
  "main_tools [] toolResults s = main_after_tools toolResults s"
| "main_tools (ToolUse name args tid # rest) toolResults s =
     (if interrupted s then main_after_tools toolResults s
      else if args = JUndefined then leave s
      else case handleToolCall name args tid (log (ToolCall name args tid) s) of
             (Returned r, s') \<Rightarrow> main_tools rest (toolResults @ [ToolResult tid r]) s'
           | (AwaitingGenerate, s') \<Rightarrow>
               suspend (AwaitToolMain (ToolUse name args tid) rest toolResults) s'
           | (Threw, s') \<Rightarrow> leave s')"
| "main_tools (b # rest) toolResults s = main_tools rest toolResults s"

text \<open>Lines 213 to 228: from \<^verbatim>\<open>tts.flush()\<close> to the start of the tool loop.\<close>

definition main_after_flush :: "bool \<Rightarrow> string \<Rightarrow> block list \<Rightarrow> orch \<Rightarrow> orch" where
  "main_after_flush isContinuation fullText rcontent s =
     (let s1 = s\<lparr>trace := trace s @ [TtsFlush, TtsCloseStream]
                  @ (if fullText \<noteq> []
                     then [Emit (if isContinuation then AgentTextContinue fullText
                                 else AgentText fullText)]
                     else [])\<rparr>;
          s2 = push_msg \<lparr>role = Assistant, content = Blocks rcontent\<rparr> s1;
          toolUseBlocks = filter is_tool_use rcontent
      in if toolUseBlocks \<noteq> [] then main_tools toolUseBlocks [] s2 else leave s2)"

text \<open>Lines 202 to 212, when the streaming call has returned the final message.\<close>

definition main_after_stream :: "bool \<Rightarrow> string \<Rightarrow> block list \<Rightarrow> orch \<Rightarrow> orch" where
  "main_after_stream isContinuation fullText rcontent s =
     (if interrupted s then leave s
      else if \<not> blank (sentenceBuffer s)
      then suspend (AwaitFlushSend isContinuation fullText rcontent)
             (log (TtsSendTextChunk (sentenceBuffer s @ '' '')) s)
      else main_after_flush isContinuation fullText rcontent s)"

text \<open>What an awaited operation can settle with.\<close>

datatype resolution =
    StreamDone "block list"   \<comment> \<open>the final message of the stream, its content\<close>
  | StreamFailed              \<comment> \<open>the stream rejects: provider error, or abort\<close>
  | Responded "block list"    \<comment> \<open>\<^verbatim>\<open>getResponse\<close> returns a message, its content\<close>
  | RequestFailed
  | TtsSent                   \<comment> \<open>an awaited synthesizer send returns\<close>
  | TtsFailed                 \<comment> \<open>the synthesizer connection rejects\<close>
  | Generated tutorial
  | GenerateFailed string

definition createTutorial_finish :: "resolution \<Rightarrow> orch \<Rightarrow> (json \<times> orch) option" where
  "createTutorial_finish r s =
     (case r of
        Generated tu \<Rightarrow> Some (createTutorial_ready tu s)
      | GenerateFailed err \<Rightarrow> Some (createTutorial_failed err s)
      | _ \<Rightarrow> None)"

text \<open>
  Resuming the main cycle at its \<^verbatim>\<open>await\<close>; \<^verbatim>\<open>None\<close> when the settled operation is not
  the awaited one. A rejection is caught by the \<^verbatim>\<open>catch\<close> clause, which only logs.
\<close>

definition resume_main :: "task \<Rightarrow> resolution \<Rightarrow> orch \<Rightarrow> orch option" where
  "resume_main t r s =
     (case t of
        AwaitStream c fullText \<Rightarrow>
          (case r of
             StreamDone rcontent \<Rightarrow> Some (main_after_stream c fullText rcontent s)
           | StreamFailed \<Rightarrow> Some (leave s)
           | _ \<Rightarrow> None)
      | AwaitFlushSend c fullText rcontent \<Rightarrow>
          (case r of
             TtsSent \<Rightarrow> Some (main_after_flush c fullText rcontent (s\<lparr>sentenceBuffer := []\<rparr>))
           | TtsFailed \<Rightarrow> Some (leave s)
           | _ \<Rightarrow> None)
      | AwaitToolMain b rest toolResults \<Rightarrow>
          (case b of
             ToolUse name args tid \<Rightarrow>
               (case createTutorial_finish r s of
                  None \<Rightarrow> None
                | Some (res, s') \<Rightarrow>
                    Some (main_tools rest (toolResults @ [ToolResult tid res]) s'))
           | _ \<Rightarrow> None)
      | _ \<Rightarrow> None)"

text \<open>The callback given to the streaming call, lines 195 to 199.\<close>

definition onStreamText :: "string \<Rightarrow> orch \<Rightarrow> orch" where
  "onStreamText chunk s =
     (case task s of
        Some (AwaitStream c fullText) \<Rightarrow>
          if interrupted s then s
          else handleTextChunkForTTS chunk (s\<lparr>task := Some (AwaitStream c (fullText @ chunk))\<rparr>)
      | _ \<Rightarrow> s)"

section \<open>The recurring check\<close>

definition MAX_TOOL_ROUNDS :: nat where
  "MAX_TOOL_ROUNDS = 3"

definition idle_threshold :: "config \<Rightarrow> nat" where
  "idle_threshold cfg = (if idleThresholdMs cfg = 0 then 10000 else idleThresholdMs cfg)"

definition checkPrompt :: "orch \<Rightarrow> string" where
  "checkPrompt s =
     ''[RECURRING_SCREEN_CHECK] Look at the user's current ''
     @ (if toolType s = Some ''figma'' then ''Figma canvas'' else ''Blender screen'')
     @ ''. If they seem stuck or could use a tip, provide brief guidance. If everything looks fine, respond with exactly: [NO_GUIDANCE_NEEDED]''
     @ (case currentTutorial s of
          None \<Rightarrow> []
        | Some tu \<Rightarrow>
            ''\<newline>Current step ''
            @ (case currentStepIndex s of None \<Rightarrow> ''NaN'' | Some i \<Rightarrow> number_text (i + 1))
            @ '': ''
            @ (case step_at (Some tu) (currentStepIndex s) of
                 None \<Rightarrow> ''undefined'' | Some st \<Rightarrow> title st))"

fun starts_with :: "string \<Rightarrow> string \<Rightarrow> bool" where
  "starts_with cs [] = True"
| "starts_with [] (p # ps) = False"
| "starts_with (c # cs) (p # ps) = (c = p \<and> starts_with cs ps)"

text \<open>\<^verbatim>\<open>text.includes(p)\<close>\<close>

fun str_includes :: "string \<Rightarrow> string \<Rightarrow> bool" where
  "str_includes [] p = starts_with [] p"
| "str_includes (c # cs) p = (starts_with (c # cs) p \<or> str_includes cs p)"

text \<open>\<^verbatim>\<open>content.find(c => c.type === 'text')?.text || ''\<close>\<close>

definition first_text :: "block list \<Rightarrow> string" where
  "first_text bs = (case filter is_text bs of [] \<Rightarrow> [] | b # _ \<Rightarrow> text_of b)"

text \<open>Lines 589 to 598: the last test of the flag and the commit.\<close>

definition check_commit :: "msg list \<Rightarrow> orch \<Rightarrow> orch" where
  "check_commit messagesToCommit s =
     (if recurringCheckCancelled s then leave (log (CheckCancelled BeforeCommit) s)
      else leave (s\<lparr>conversation := conversation s @ messagesToCommit\<rparr>))"

text \<open>Lines 556 to 586: the tool loop of a round, and what follows it.\<close>

fun check_tools ::
  "block list \<Rightarrow> block list \<Rightarrow> msg list \<Rightarrow> bool \<Rightarrow> nat \<Rightarrow> orch \<Rightarrow> orch" where
  "check_tools [] toolResults messagesToCommit isFirstText round s =
     (let toCommit = messagesToCommit @ [\<lparr>role = User, content = Blocks toolResults\<rparr>] in
      if round = MAX_TOOL_ROUNDS then check_commit toCommit s
      else if recurringCheckCancelled s then leave (log (CheckCancelled BeforeFollowup) s)
      else suspend (AwaitFollowup toCommit isFirstText round)
             (log (Request (conversation s @ toCommit)) s))"
| "check_tools (ToolUse name args tid # rest) toolResults messagesToCommit isFirstText round s =
     (if recurringCheckCancelled s then leave (log (CheckCancelled DuringTools) s)
      else case handleToolCall name args tid (log (ToolCall name args tid) s) of
             (Returned r, s') \<Rightarrow>
               check_tools rest (toolResults @ [ToolResult tid r]) messagesToCommit
                 isFirstText round s'
           | (AwaitingGenerate, s') \<Rightarrow>
               suspend (AwaitCheckTool (ToolUse name args tid) rest toolResults
                          messagesToCommit isFirstText round) s'
           | (Threw, s') \<Rightarrow> leave s')"
| "check_tools (b # rest) toolResults messagesToCommit isFirstText round s =
     check_tools rest toolResults messagesToCommit isFirstText round s"

text \<open>Lines 551 to 555: after the text of a round has been spoken, or when it has none.\<close>

definition check_after_text ::
  "block list \<Rightarrow> msg list \<Rightarrow> bool \<Rightarrow> nat \<Rightarrow> orch \<Rightarrow> orch" where
  "check_after_text toolUseBlocks messagesToCommit isFirstText round s =
     (if toolUseBlocks = [] then check_commit messagesToCommit s
      else check_tools toolUseBlocks [] messagesToCommit isFirstText round s)"

text \<open>Lines 524 to 549: a round of the loop, from its start to the spoken text.\<close>

definition check_round ::
  "nat \<Rightarrow> block list \<Rightarrow> msg list \<Rightarrow> bool \<Rightarrow> orch \<Rightarrow> orch" where
  "check_round round rcontent messagesToCommit isFirstText s =
     (if recurringCheckCancelled s then leave (log (CheckCancelled RoundStart) s)
      else let text = first_text rcontent;
               toolUseBlocks = filter is_tool_use rcontent
        in if str_includes text ''[NO_GUIDANCE_NEEDED]'' then leave (log NoGuidanceNeeded s)
           else let toCommit = messagesToCommit @ [\<lparr>role = Assistant, content = Blocks rcontent\<rparr>]
             in if text \<noteq> []
                then suspend (AwaitCheckTts toCommit toolUseBlocks round)
                       (s\<lparr>trace := trace s @
                           [Emit (if isFirstText then AgentText text else AgentTextContinue text),
                            TtsSendText text]\<rparr>)
                else check_after_text toolUseBlocks toCommit isFirstText round s)"

text \<open>
  Resuming the recurring check at its \<^verbatim>\<open>await\<close>, up to the end of its \<^verbatim>\<open>try\<close> block
  or to its next \<^verbatim>\<open>await\<close>.
\<close>

definition resume_check :: "task \<Rightarrow> resolution \<Rightarrow> orch \<Rightarrow> orch option" where
  "resume_check t r s =
     (case t of
        AwaitCheckResponse userContent \<Rightarrow>
          (case r of
             Responded rcontent \<Rightarrow>
               Some (if recurringCheckCancelled s
                     then leave (log (CheckCancelled AfterResponse) s)
                     else check_round 0 rcontent [\<lparr>role = User, content = userContent\<rparr>] True s)
           | RequestFailed \<Rightarrow> Some (leave s)
           | _ \<Rightarrow> None)
      | AwaitCheckTts messagesToCommit toolUseBlocks round \<Rightarrow>
          (case r of
             TtsSent \<Rightarrow>
               Some (if recurringCheckCancelled s then leave (log (CheckCancelled AfterTts) s)
                     else check_after_text toolUseBlocks messagesToCommit False round s)
           | TtsFailed \<Rightarrow> Some (leave s)
           | _ \<Rightarrow> None)
      | AwaitCheckTool b rest toolResults messagesToCommit isFirstText round \<Rightarrow>
          (case b of
             ToolUse name args tid \<Rightarrow>
               (case createTutorial_finish r s of
                  None \<Rightarrow> None
                | Some (res, s') \<Rightarrow>
                    Some (check_tools rest (toolResults @ [ToolResult tid res]) messagesToCommit
                            isFirstText round s'))
           | _ \<Rightarrow> None)
      | AwaitFollowup messagesToCommit isFirstText round \<Rightarrow>
          (case r of
             Responded rcontent \<Rightarrow>
               Some (check_round (Suc round) rcontent messagesToCommit isFirstText s)
           | RequestFailed \<Rightarrow> Some (leave s)
           | _ \<Rightarrow> None)
      | _ \<Rightarrow> None)"

text \<open>The timer callback of \<^verbatim>\<open>startRecurringCheck\<close> up to its first \<^verbatim>\<open>await\<close>.\<close>

definition recurringCheck :: "nat \<Rightarrow> orch \<Rightarrow> orch" where
  "recurringCheck now s =
     (if isRecurringCheckRunning s then s
      else if isAgentCurrentlySpeaking s then s
      else if isProcessing s then s
      else if int now - int (lastUserInputAt s) < int (idle_threshold (config s)) then s
      else if \<not> frame_present s then s
      else let s1 = s\<lparr>isRecurringCheckRunning := True, recurringCheckCancelled := False,
                       isProcessing := True\<rparr>;
               userContent = buildUserContent (checkPrompt s1) s1;
               conv = pruneOldImages (sanitizeConversation (conversation s1));
               checkMessages = conv @ [\<lparr>role = User, content = userContent\<rparr>]
        in s1\<lparr>conversation := conv, trace := trace s1 @ [Request checkMessages],
               task := Some (AwaitCheckResponse userContent)\<rparr>)"

definition startRecurringCheck :: "orch \<Rightarrow> orch" where
  "startRecurringCheck s =
     (if \<not> recurringEnabled (config s) then s else s\<lparr>recurringCheckInterval := True\<rparr>)"

section \<open>The \<^verbatim>\<open>finally\<close> blocks and the return to the callers\<close>

text \<open>
  The \<^verbatim>\<open>finally\<close> block of \<^verbatim>\<open>sendToClaudeAndSpeak\<close>; the flag says whether it started a
  cycle for a queued user message (and now awaits it).
\<close>

definition main_finally_block :: "orch \<Rightarrow> bool \<times> orch" where
  "main_finally_block s =
     (let s1 = s\<lparr>isProcessing := False\<rparr> in
      if hasPendingUserMessage s1
      then sendToClaudeAndSpeak False (s1\<lparr>hasPendingUserMessage := False\<rparr>)
      else (False, s1))"

text \<open>
  A call of \<^verbatim>\<open>sendToClaudeAndSpeak\<close> has returned: its callers continue, innermost first,
  until one of them awaits again or none is left.
\<close>

fun unwind :: "frame list \<Rightarrow> orch \<Rightarrow> orch" where
  "unwind [] s = s\<lparr>task := None, stack := []\<rparr>"
| "unwind (FrStartSession # fs) s = unwind fs (log (Emit SessionStarted) (startRecurringCheck s))"
| "unwind (FrToolRound # fs) s =
     (case main_finally_block s of
        (started, s') \<Rightarrow> if started then s'\<lparr>stack := FrFinally # fs\<rparr> else unwind fs s')"
| "unwind (FrCommitted # fs) s = unwind fs s"
| "unwind (FrFinally # fs) s = unwind fs s"
| "unwind (FrCheckFinally # fs) s = unwind fs s"

definition main_finally :: "orch \<Rightarrow> orch" where
  "main_finally s =
     (case main_finally_block s of
        (started, s') \<Rightarrow>
          if started then s'\<lparr>stack := FrFinally # stack s'\<rparr> else unwind (stack s') s')"

definition check_finally :: "orch \<Rightarrow> orch" where
  "check_finally s =
     (let s1 = s\<lparr>isRecurringCheckRunning := False, recurringCheckCancelled := False,
                 isProcessing := False\<rparr> in
      if hasPendingUserMessage s1
      then (case sendToClaudeAndSpeak False (s1\<lparr>hasPendingUserMessage := False\<rparr>) of
              (started, s') \<Rightarrow>
                if started then s'\<lparr>stack := FrCheckFinally # stack s'\<rparr>
                else unwind (stack s') s')
      else unwind (stack s1) s1)"

section \<open>Session start, committed transcripts and the event loop\<close>

text \<open>
  \<^verbatim>\<open>startSession\<close>. On a first start (the history is empty) line 74 takes the tool type
  from the payload, \<^verbatim>\<open>data?.toolType || 'blender'\<close>, and line 75 loads the agent
  configuration \<^verbatim>\<open>./agents/${this.toolType}-tutor.json\<close> with \<^verbatim>\<open>require\<close>. The
  repository has two such files, \<^verbatim>\<open>blender-tutor.json\<close> and \<^verbatim>\<open>figma-tutor.json\<close>
  (README); for any other name \<^verbatim>\<open>require\<close> throws and the call ends there: nothing is
  pushed, sent or emitted, no synthesizer is created and the transcript source is not
  connected. \<^verbatim>\<open>session_tool\<close> is the tool type of a first start that loads a
  configuration, and \<^verbatim>\<open>None\<close> when \<^verbatim>\<open>require\<close> throws. The tool type that line 74
  has stored by then is read by nothing before the next \<^verbatim>\<open>start_session\<close> stores another
  (the recurring check, which reads it, is started by a successful start only), so the model
  leaves \<^verbatim>\<open>toolType\<close> as it was. The code compares the tool type with \<^verbatim>\<open>'figma'\<close> by
  \<^verbatim>\<open>===\<close>: a tool type that is not a string (an array whose text names a file) is
  never equal to it, and the model records it as \<^verbatim>\<open>blender\<close>.
\<close>

fun truthy :: "json \<Rightarrow> bool" where
  "truthy JUndefined = False"
| "truthy (JBool b) = b"
| "truthy (JNum n) = (n \<noteq> 0)"
| "truthy (JStr t) = (t \<noteq> [])"
| "truthy (JArr xs) = True"
| "truthy (JObj kvs) = True"

definition session_tool :: "json \<Rightarrow> string option" where
  "session_tool d =
     (let v = field ''toolType'' d;
          tt = (if truthy v then v else JStr ''blender'')
      in if js_text tt = ''blender'' \<or> js_text tt = ''figma''
         then Some (case tt of JStr t \<Rightarrow> t | _ \<Rightarrow> ''blender'')
         else None)"

definition startSession :: "json \<Rightarrow> orch \<Rightarrow> orch" where
  "startSession d s =
     (if conversation s \<noteq> [] then log (Emit SessionStarted) s
      else case session_tool d of
             None \<Rightarrow> s
           | Some t \<Rightarrow>
               let s1 = s\<lparr>toolType := Some t\<rparr>;
                   s2 = push_msg \<lparr>role = User, content = Str ''[SESSION_START]''\<rparr> s1
               in case sendToClaudeAndSpeak False s2 of
                    (started, s3) \<Rightarrow>
                      if started then s3\<lparr>stack := FrStartSession # stack s3\<rparr>
                      else log (Emit SessionStarted) (startRecurringCheck s3))"

definition onCommittedTranscript :: "string \<Rightarrow> nat \<Rightarrow> orch \<Rightarrow> orch" where
  "onCommittedTranscript text now s =
     (if blank text then s
      else let s1 = s\<lparr>lastUserInputAt := now\<rparr>;
               s2 = (if conversation s1 \<noteq> [] \<and> role (last (conversation s1)) = User
                     then push_msg \<lparr>role = Assistant, content = Str interrupted_placeholder\<rparr> s1
                     else s1);
               s3 = push_msg \<lparr>role = User, content = buildUserContent text s2\<rparr> s2;
               s4 = handleInterruption (log (Emit (UserText text)) s3)
        in if isProcessing s4 then s4\<lparr>hasPendingUserMessage := True\<rparr>
           else (case sendToClaudeAndSpeak False s4 of
                   (started, s5) \<Rightarrow>
                     if started then s5\<lparr>stack := FrCommitted # stack s5\<rparr> else s5))"

definition is_check_task :: "task \<Rightarrow> bool" where
  "is_check_task t =
     (case t of
        AwaitCheckResponse _ \<Rightarrow> True
      | AwaitCheckTts _ _ _ \<Rightarrow> True
      | AwaitCheckTool _ _ _ _ _ _ \<Rightarrow> True
      | AwaitFollowup _ _ _ \<Rightarrow> True
      | _ \<Rightarrow> False)"

text \<open>
  An awaited operation settles: the parked cycle runs on, and when it leaves its \<^verbatim>\<open>try\<close>
  block its \<^verbatim>\<open>finally\<close> block runs. A settlement that no parked cycle awaits has no
  effect.
\<close>

definition resolve :: "resolution \<Rightarrow> orch \<Rightarrow> orch" where
  "resolve r s =
     (case task s of
        None \<Rightarrow> s
      | Some t \<Rightarrow>
          if is_check_task t
          then (case resume_check t r s of
                  None \<Rightarrow> s
                | Some s' \<Rightarrow> if task s' = None then check_finally s' else s')
          else (case resume_main t r s of
                  None \<Rightarrow> s
                | Some s' \<Rightarrow> if task s' = None then main_finally s' else s'))"

text \<open>
  The events of the outside world. Transcripts and synthesized audio come from services that
  \<^verbatim>\<open>startSession\<close> creates or connects, and the timer from \<^verbatim>\<open>startRecurringCheck\<close>; before
  that they cannot occur. A transcript and a timer tick carry the value of \<^verbatim>\<open>Date.now()\<close>.
\<close>

datatype event =
    StartSession json
  | Frame string
  | PlaybackEnded
  | PartialTranscript string
  | CommittedTranscript string nat
  | TtsAudio string
  | Tick nat
  | StreamText string
  | Resolve resolution

fun step :: "event \<Rightarrow> orch \<Rightarrow> orch" where
  "step (StartSession d) s = startSession d s"
| "step (Frame d) s = s\<lparr>latestFrame := Some d\<rparr>"
| "step PlaybackEnded s = s\<lparr>isAgentCurrentlySpeaking := False\<rparr>"
| "step (PartialTranscript t) s = (if toolType s = None then s else onPartialTranscript t s)"
| "step (CommittedTranscript t now) s =
     (if toolType s = None then s else onCommittedTranscript t now s)"
| "step (TtsAudio d) s = (if toolType s = None then s else onTTSAudioChunk d s)"
| "step (Tick now) s = (if recurringCheckInterval s then recurringCheck now s else s)"
| "step (StreamText c) s = onStreamText c s"
| "step (Resolve r) s = resolve r s"

definition run :: "event list \<Rightarrow> orch \<Rightarrow> orch" where
  "run es s = fold step es s"

section \<open>Predicates used to state the properties\<close>

text \<open>
  An assistant message is \<^emph>\<open>orphaned\<close> for the sanitization pass when it holds a tool-use
  block and the check for a following tool-result message fails.
\<close>

definition orphaned :: "msg list \<Rightarrow> nat \<Rightarrow> bool" where
  "orphaned conv i =
     (role (conv ! i) = Assistant \<and> list_ex is_tool_use (blocks_of (content (conv ! i)))
      \<and> \<not> valid_pair conv i)"

definition sanitized_msg :: "msg list \<Rightarrow> nat \<Rightarrow> msg" where
  "sanitized_msg conv i =
     (if orphaned conv i
      then (conv ! i)\<lparr>content := stripped_content (blocks_of (content (conv ! i)))\<rparr>
      else conv ! i)"

fun tool_use_ids :: "block list \<Rightarrow> string list" where
  "tool_use_ids [] = []"
| "tool_use_ids (ToolUse n a i # bs) = i # tool_use_ids bs"
| "tool_use_ids (b # bs) = tool_use_ids bs"

fun tool_result_ids :: "block list \<Rightarrow> string list" where
  "tool_result_ids [] = []"
| "tool_result_ids (ToolResult i r # bs) = i # tool_result_ids bs"
| "tool_result_ids (b # bs) = tool_result_ids bs"

text \<open>
  The specification's wording, for comparison with the code: message \<^verbatim>\<open>i\<close> is followed by
  a user message carrying \<^emph>\<open>matching\<close> tool results, one per tool-use block, with the same
  identifiers in the same order.
\<close>

definition matching_results :: "msg list \<Rightarrow> nat \<Rightarrow> bool" where
  "matching_results conv i =
     (Suc i < length conv \<and> role (conv ! Suc i) = User
      \<and> tool_result_ids (blocks_of (content (conv ! Suc i)))
          = tool_use_ids (blocks_of (content (conv ! i))))"

text \<open>
  The specification's wording of the sanitization pass, as a relation between the history
  given to the pass and the history it leaves: an assistant message with tool-use blocks and
  no matching results after it has its content replaced by its own text if it has a
  non-empty text, and by the placeholder otherwise; one with matching results is unchanged.
\<close>

definition claimed_sanitized :: "msg list \<Rightarrow> msg list \<Rightarrow> bool" where
  "claimed_sanitized conv conv' =
     (length conv' = length conv \<and>
      list_all (\<lambda>i.
        let m = conv ! i; texts = filter is_text (blocks_of (content m)) in
        if role m = Assistant \<and> list_ex is_tool_use (blocks_of (content m))
        then (if matching_results conv i then conv' ! i = m
              else if list_ex (\<lambda>b. text_of b \<noteq> []) texts
              then (content (conv' ! i) = Blocks texts
                    \<or> (length texts = 1 \<and> content (conv' ! i) = Str (text_of (hd texts))))
              else content (conv' ! i) = Str interrupted_placeholder)
        else True) [0..<length conv])"

text \<open>
  The alternation invariant in the specification's wording: consecutive turns have different
  roles, and a turn that carries tool results is a user turn that immediately follows an
  assistant turn whose tool-use blocks have the same identifiers in the same order.
\<close>

definition tool_result_turn :: "msg \<Rightarrow> bool" where
  "tool_result_turn m = list_ex is_tool_result (blocks_of (content m))"

fun follows_ok :: "msg \<Rightarrow> msg list \<Rightarrow> bool" where
  "follows_ok prev [] = True"
| "follows_ok prev (m # ms) =
     (role m \<noteq> role prev
      \<and> (if tool_result_turn m
         then role m = User \<and> role prev = Assistant
              \<and> tool_result_ids (blocks_of (content m)) = tool_use_ids (blocks_of (content prev))
         else True)
      \<and> follows_ok m ms)"

definition alternation_ok :: "msg list \<Rightarrow> bool" where
  "alternation_ok conv =
     (case conv of [] \<Rightarrow> True | m # ms \<Rightarrow> \<not> tool_result_turn m \<and> follows_ok m ms)"

text \<open>
  A history whose turns of tool results are those the tool loops build: a user turn that
  carries tool results right after an assistant turn carries one result per tool-use block
  of that turn, with the same identifiers in the same order.
\<close>

definition results_match :: "msg list \<Rightarrow> bool" where
  "results_match conv =
     list_all (\<lambda>i. role (conv ! i) = Assistant \<and> role (conv ! Suc i) = User
                     \<and> tool_result_turn (conv ! Suc i)
                   \<longrightarrow> tool_result_ids (blocks_of (content (conv ! Suc i)))
                        = tool_use_ids (blocks_of (content (conv ! i))))
       [0..<length conv - 1]"

text \<open>The messages of the outbound generation requests of a trace, in order.\<close>

fun requests :: "action list \<Rightarrow> msg list list" where
  "requests [] = []"
| "requests (StreamingRequest ms # as) = ms # requests as"
| "requests (Request ms # as) = ms # requests as"
| "requests (a # as) = requests as"

text \<open>The strings given to \<^verbatim>\<open>tts.sendTextChunk\<close> in a trace, in order.\<close>

fun tts_chunks :: "action list \<Rightarrow> string list" where
  "tts_chunks [] = []"
| "tts_chunks (TtsSendTextChunk t # as) = t # tts_chunks as"
| "tts_chunks (a # as) = tts_chunks as"

text \<open>
  The actions that mark the start of a main cycle (its request is sent right after the
  interrupt flag is cleared) and the forwarding of synthesized audio to the client; the
  actions added to the trace between two states.
\<close>

definition is_streaming_request :: "action \<Rightarrow> bool" where
  "is_streaming_request a = (case a of StreamingRequest _ \<Rightarrow> True | _ \<Rightarrow> False)"

definition is_agent_audio :: "action \<Rightarrow> bool" where
  "is_agent_audio a = (case a of Emit (AgentAudio _) \<Rightarrow> True | _ \<Rightarrow> False)"

definition new_actions :: "orch \<Rightarrow> orch \<Rightarrow> action list" where
  "new_actions s s' = drop (length (trace s)) (trace s')"

text \<open>
  \<^verbatim>\<open>ext s s'\<close>: from \<^verbatim>\<open>s\<close> to \<^verbatim>\<open>s'\<close> the trace has only grown, no audio was forwarded,
  and the interrupt flag was cleared only if a main cycle was started.
\<close>

definition ext :: "orch \<Rightarrow> orch \<Rightarrow> bool" where
  "ext s s' = (\<exists>as. trace s' = trace s @ as \<and> \<not> list_ex is_agent_audio as
                \<and> (interrupted s \<and> \<not> interrupted s' \<longrightarrow> list_ex is_streaming_request as))"


text \<open>
  What resuming a recurring check at an await may do to the history, \<^verbatim>\<open>mc\<close> being the
  provisional turns built so far.
\<close>

definition check_outcome :: "msg list \<Rightarrow> orch \<Rightarrow> orch \<Rightarrow> bool" where
  "check_outcome mc s s' =
     ((recurringCheckCancelled s \<longrightarrow> task s' = None \<and> conversation s' = conversation s)
      \<and> (task s' \<noteq> None \<longrightarrow> conversation s' = conversation s)
      \<and> (conversation s' = conversation s
          \<or> (task s' = None \<and> \<not> recurringCheckCancelled s
              \<and> (\<exists>ms. conversation s' = conversation s @ mc @ ms))))"








text \<open>
  \<^verbatim>\<open>quiet s s'\<close>: from \<^verbatim>\<open>s\<close> to \<^verbatim>\<open>s'\<close> only the trace, the parked task, the history, the
  tutorial state and the sentence buffer have changed, and no main cycle was started.
\<close>

definition quiet :: "orch \<Rightarrow> orch \<Rightarrow> bool" where
  "quiet s s' =
     (s' = s\<lparr>trace := trace s', task := task s', conversation := conversation s',
             currentTutorial := currentTutorial s', currentStepIndex := currentStepIndex s',
             sentenceBuffer := sentenceBuffer s'\<rparr>
      \<and> (\<exists>as. trace s' = trace s @ as \<and> \<not> list_ex is_streaming_request as))"







text \<open>
  The calls of the tool dispatcher in a trace, in order, and the call a tool-use block
  stands for; the tool-use blocks of the tutorial tool, whose handler awaits the lesson
  creator; the tool-use blocks that have an input.
\<close>

definition is_tool_call :: "action \<Rightarrow> bool" where
  "is_tool_call a = (case a of ToolCall _ _ _ \<Rightarrow> True | _ \<Rightarrow> False)"

definition tool_calls :: "action list \<Rightarrow> action list" where
  "tool_calls as = filter is_tool_call as"

fun call_of :: "block \<Rightarrow> action" where
  "call_of (ToolUse name args tid) = ToolCall name args tid"
| "call_of b = ToolCall [] JUndefined []"

fun is_create :: "block \<Rightarrow> bool" where
  "is_create (ToolUse name args tid) = (name = ''Create_Tutorial'')"
| "is_create b = False"

fun has_input :: "block \<Rightarrow> bool" where
  "has_input (ToolUse name args tid) = (args \<noteq> JUndefined)"
| "has_input b = True"

text \<open>
  The tool loop of a main cycle, seen from the state \<^verbatim>\<open>s0\<close> at its start, \<^verbatim>\<open>ts\<close> being
  the tool-use blocks of the response. \<^verbatim>\<open>tool_wait s0 ts k s'\<close>: the loop is parked at a
  tutorial tool, the tools up to this one have been called, in order, no result turn has
  been appended and no request sent, and \<^verbatim>\<open>k\<close> tutorial generations are still to be
  awaited (this one and those of the tools not yet called).
\<close>

definition tool_wait :: "orch \<Rightarrow> block list \<Rightarrow> nat \<Rightarrow> orch \<Rightarrow> bool" where
  "tool_wait s0 ts k s' =
     (\<exists>pre t post rs. ts = pre @ t # post
        \<and> task s' = Some (AwaitToolMain t post rs)
        \<and> k = Suc (length (filter is_create post))
        \<and> tool_result_ids rs = tool_use_ids pre \<and> list_all is_tool_result rs
        \<and> tool_calls (trace s') = tool_calls (trace s0) @ map call_of (pre @ [t])
        \<and> requests (trace s') = requests (trace s0)
        \<and> conversation s' = conversation s0
        \<and> \<not> interrupted s' \<and> isProcessing s')"

text \<open>
  \<^verbatim>\<open>tool_done s0 ts s'\<close>: the loop is over. Every tool was called once, in order, one user
  turn with one result per tool was appended, and the request of the next round was sent
  with the history.
\<close>

definition tool_done :: "orch \<Rightarrow> block list \<Rightarrow> orch \<Rightarrow> bool" where
  "tool_done s0 ts s' =
     (\<exists>rs. tool_result_ids rs = tool_use_ids ts \<and> list_all is_tool_result rs
        \<and> tool_calls (trace s') = tool_calls (trace s0) @ map call_of ts
        \<and> conversation s'
            = pruneOldImages (sanitizeConversation
                (conversation s0 @ [\<lparr>role = User, content = Blocks rs\<rparr>]))
        \<and> requests (trace s') = requests (trace s0) @ [conversation s']
        \<and> task s' = Some (AwaitStream True [])
        \<and> \<not> interrupted s' \<and> isProcessing s')"

definition tool_phase :: "orch \<Rightarrow> block list \<Rightarrow> nat \<Rightarrow> orch \<Rightarrow> bool" where
  "tool_phase s0 ts k s' = (if k = 0 then tool_done s0 ts s' else tool_wait s0 ts k s')"

text \<open>
  The events that can reach the module between the response with the tool-use blocks and the
  first event of the next round's stream, when the user does not speak: frames, playback
  notices, audio chunks, timer ticks, a repeated session start, transcripts without text,
  and settlements other than those of a stream. Among them, the settlements of a tutorial
  generation.
\<close>

fun tool_phase_event :: "event \<Rightarrow> bool" where
  "tool_phase_event (PartialTranscript t) = blank t"
| "tool_phase_event (CommittedTranscript t now) = blank t"
| "tool_phase_event (StreamText c) = False"
| "tool_phase_event (Resolve (StreamDone rcontent)) = False"
| "tool_phase_event (Resolve StreamFailed) = False"
| "tool_phase_event e = True"

fun is_generation :: "event \<Rightarrow> bool" where
  "is_generation (Resolve (Generated tu)) = True"
| "is_generation (Resolve (GenerateFailed err)) = True"
| "is_generation e = False"

text \<open>
  Data of the examples: a configuration with the recurring check enabled, the first turn of
  every session, and the prompt of a recurring check outside a tutorial.
\<close>

definition example_config :: config where
  "example_config = \<lparr>recurringEnabled = True, idleThresholdMs = 10000\<rparr>"

definition greeting :: msg where
  "greeting = \<lparr>role = User, content = Str ''[SESSION_START]''\<rparr>"

definition example_prompt :: string where
  "example_prompt = checkPrompt ((init example_config)\<lparr>toolType := Some ''blender''\<rparr>)"

text \<open>A response with a text and three tool-use blocks.\<close>

definition example_response :: "block list" where
  "example_response =
     [TextB ''On it.'',
      ToolUse ''Suggested_HotKey'' (JObj [(''key_combo'', JStr ''G'')]) ''t1'',
      ToolUse ''Create_Tutorial'' (JObj [(''object_label'', JStr ''chair'')]) ''t2'',
      ToolUse ''Open_File'' (JObj []) ''t3'']"

section \<open>Properties of the sanitization pass\<close>

lemma sanitize_at_length: "length (sanitize_at i conv) = length conv"
  by (simp add: sanitize_at_def Let_def)

lemma sanitized_msg_role: "role (sanitized_msg conv i) = role (conv ! i)"
  by (simp add: sanitized_msg_def)

lemma sanitized_msg_user: "role (conv ! i) = User \<Longrightarrow> sanitized_msg conv i = conv ! i"
  by (simp add: sanitized_msg_def orphaned_def)

text \<open>
  The loop runs from the last index down and updates in place. What it has already done to
  the message after index \<^verbatim>\<open>k\<close> does not change the check made at \<^verbatim>\<open>k\<close>: only
  assistant messages are rewritten, and the check asks for a user message.
\<close>

lemma sanitize_from_inv:
  "k \<le> length conv \<Longrightarrow> L = take k conv @ map (sanitized_msg conv) [k..<length conv]
   \<Longrightarrow> sanitize_from k L = map (sanitized_msg conv) [0..<length conv]"
proof (induction k arbitrary: L)
  case 0
  then show ?case by simp
next
  case (Suc k L)
  have len: "length L = length conv" using Suc.prems by simp
  have k: "k < length conv" using Suc.prems by simp
  have Lk: "L ! k = conv ! k" using Suc.prems k by (simp add: nth_append)
  have LSk: "Suc k < length conv \<Longrightarrow> L ! Suc k = sanitized_msg conv (Suc k)"
    using Suc.prems k by (simp add: nth_append)
  have vp: "valid_pair L k = valid_pair conv k"
  proof (cases "Suc k < length conv")
    case True
    show ?thesis
    proof (cases "role (conv ! Suc k)")
      case User
      then show ?thesis using True LSk len by (simp add: valid_pair_def sanitized_msg_user)
    next
      case Assistant
      then show ?thesis using True LSk len by (simp add: valid_pair_def sanitized_msg_role)
    qed
  next
    case False
    then show ?thesis using len by (simp add: valid_pair_def)
  qed
  have same: "L[k := conv ! k] = L"
    using Lk list_update_id[of L k] by simp
  have step: "sanitize_at k L = L[k := sanitized_msg conv k]"
    using Lk vp same
    by (simp add: sanitize_at_def sanitized_msg_def orphaned_def Let_def)
  have "L[k := sanitized_msg conv k] = take k conv @ map (sanitized_msg conv) [k..<length conv]"
  proof (rule nth_equalityI)
    show "length (L[k := sanitized_msg conv k])
          = length (take k conv @ map (sanitized_msg conv) [k..<length conv])"
      using len k by simp
  next
    fix i assume "i < length (L[k := sanitized_msg conv k])"
    then have i: "i < length conv" using len by simp
    show "L[k := sanitized_msg conv k] ! i
          = (take k conv @ map (sanitized_msg conv) [k..<length conv]) ! i"
      using i k len Suc.prems(2)
      by (cases "i = k") (auto simp add: nth_append nth_list_update less_Suc_eq)
  qed
  then show ?case using Suc.IH[of "L[k := sanitized_msg conv k]"] k step by simp
qed

lemma sanitizeConversation_map:
  "sanitizeConversation conv = map (sanitized_msg conv) [0..<length conv]"
  unfolding sanitizeConversation_def
  by (rule sanitize_from_inv) simp_all

lemma sanitizeConversation_length [simp]:
  "length (sanitizeConversation conv) = length conv"
  by (simp add: sanitizeConversation_map)

lemma stripped_content_cases:
  "stripped_content blocks =
     (let texts = filter is_text blocks in
      if list_all (\<lambda>b. blank (text_of b)) texts then Str interrupted_placeholder
      else if length texts = 1 then Str (text_of (hd texts)) else Blocks texts)"
  by (auto simp add: stripped_content_def Let_def list_ex_iff list_all_iff filter_empty_conv)

lemma tool_use_ids_Nil: "tool_use_ids bs = [] \<longleftrightarrow> \<not> list_ex is_tool_use bs"
  by (induction bs rule: tool_use_ids.induct) simp_all

lemma tool_result_ids_Nil: "tool_result_ids bs = [] \<longleftrightarrow> \<not> list_ex is_tool_result bs"
  by (induction bs rule: tool_result_ids.induct) simp_all

lemma orphaned_matching:
  assumes m: "results_match conv" and i: "i < length conv"
  shows "orphaned conv i \<longleftrightarrow>
           (role (conv ! i) = Assistant \<and> list_ex is_tool_use (blocks_of (content (conv ! i)))
            \<and> \<not> matching_results conv i)"
proof (cases "role (conv ! i) = Assistant \<and> list_ex is_tool_use (blocks_of (content (conv ! i)))")
  case False
  then show ?thesis by (auto simp add: orphaned_def)
next
  case True
  have "valid_pair conv i \<longleftrightarrow> matching_results conv i"
  proof
    assume v: "valid_pair conv i"
    then have "Suc i < length conv" by (simp add: valid_pair_def)
    then have "i < length conv - 1" by arith
    then have "i \<in> set [0..<length conv - 1]" by simp
    with m have "role (conv ! i) = Assistant \<and> role (conv ! Suc i) = User
                     \<and> tool_result_turn (conv ! Suc i)
                   \<longrightarrow> tool_result_ids (blocks_of (content (conv ! Suc i)))
                        = tool_use_ids (blocks_of (content (conv ! i)))"
      unfolding results_match_def list_all_iff by blast
    then show "matching_results conv i"
      using v True by (simp add: valid_pair_def matching_results_def tool_result_turn_def)
  next
    assume "matching_results conv i"
    then show "valid_pair conv i"
      using True tool_use_ids_Nil[of "blocks_of (content (conv ! i))"]
        tool_result_ids_Nil[of "blocks_of (content (conv ! Suc i))"]
      by (auto simp add: valid_pair_def matching_results_def)
  qed
  then show ?thesis using True by (simp add: orphaned_def)
qed

text \<open>
  C5 (amended). For every conversation history given to the sanitization pass, the pass keeps
  the number, the order and the roles of the turns. An assistant turn that holds a tool-use
  block and is not immediately followed by a user turn carrying tool results has its content
  replaced: by the placeholder \<^verbatim>\<open>[Response interrupted by user]\<close> when every text block of
  the turn is blank (empty or white space only, or there is none), otherwise by the text of
  its single text block, or by the list of its text blocks when there are several. Every
  other turn is left unchanged. In a history whose turns of tool results are those the tool
  loops build, the turns replaced are exactly the assistant turns that hold a tool-use block
  and are not followed by a user turn with the matching tool results.
\<close>

theorem sanitizeConversation_normalizes:
  "length (sanitizeConversation conv) = length conv \<and>
   (\<forall>i<length conv.
      role (sanitizeConversation conv ! i) = role (conv ! i) \<and>
      (if orphaned conv i
       then content (sanitizeConversation conv ! i) =
              (let texts = filter is_text (blocks_of (content (conv ! i))) in
               if list_all (\<lambda>b. blank (text_of b)) texts then Str interrupted_placeholder
               else if length texts = 1 then Str (text_of (hd texts)) else Blocks texts)
       else sanitizeConversation conv ! i = conv ! i)) \<and>
   (results_match conv \<longrightarrow>
      (\<forall>i<length conv.
         orphaned conv i \<longleftrightarrow>
           (role (conv ! i) = Assistant \<and> list_ex is_tool_use (blocks_of (content (conv ! i)))
            \<and> \<not> matching_results conv i)))"
  using orphaned_matching[of conv]
  by (simp add: sanitizeConversation_map sanitized_msg_def stripped_content_cases)

text \<open>
  The theorem at a history in which a tutorial request was interrupted during the tool call
  and the user spoke next: the text of the turn replaces its blocks.
\<close>

theorem sanitizeConversation_normalizes_witness:
  "(let conv = [\<lparr>role = User, content = Str ''build a chair''\<rparr>,
                \<lparr>role = Assistant, content = Blocks [TextB ''On it.'',
                   ToolUse ''Create_Tutorial'' (JObj [(''object_label'', JStr ''chair'')])
                     ''toolu_1'']\<rparr>,
                \<lparr>role = User, content = Str ''wait''\<rparr>]
    in results_match conv \<and> \<not> matching_results conv 1 \<and> orphaned conv 1
       \<and> content (sanitizeConversation conv ! 1) = Str ''On it.'')"
proof -
  let ?c = "[\<lparr>role = User, content = Str ''build a chair''\<rparr>,
      \<lparr>role = Assistant, content = Blocks [TextB ''On it.'',
         ToolUse ''Create_Tutorial'' (JObj [(''object_label'', JStr ''chair'')]) ''toolu_1'']\<rparr>,
      \<lparr>role = User, content = Str ''wait''\<rparr>]"
  have rm: "results_match ?c"
    by (simp add: results_match_def tool_result_turn_def upt_rec[of 0] upt_rec[of 1])
  have nm: "\<not> matching_results ?c 1" by (simp add: matching_results_def)
  have l: "(1::nat) < length ?c" by simp
  note th = sanitizeConversation_normalizes[of ?c]
  from th rm l nm have o: "orphaned ?c 1" by simp
  with th l
  have "content (sanitizeConversation ?c ! 1) =
          (let texts = filter is_text (blocks_of (content (?c ! 1))) in
           if list_all (\<lambda>b. blank (text_of b)) texts then Str interrupted_placeholder
           else if length texts = 1 then Str (text_of (hd texts)) else Blocks texts)"
    by presburger
  then have "content (sanitizeConversation ?c ! 1) = Str ''On it.''"
    by (simp add: blank_def is_space_def)
  with rm nm o show ?thesis unfolding Let_def by blast
qed

text \<open>
  C5 as stated fails. In the history below the assistant turn has a non-empty text (one
  space) and a tool call that was interrupted before its result, and the pass replaces the
  turn by the placeholder instead of its text.
\<close>

theorem sanitizeConversation_claim_counterexample:
  "(let conv = [\<lparr>role = User, content = Str ''[SESSION_START]''\<rparr>,
                \<lparr>role = Assistant, content = Blocks [TextB '' '',
                   ToolUse ''Create_Tutorial'' (JObj [(''object_label'', JStr ''chair'')])
                     ''toolu_1'']\<rparr>,
                \<lparr>role = User, content = Str ''wait''\<rparr>]
    in sanitizeConversation conv
         = [\<lparr>role = User, content = Str ''[SESSION_START]''\<rparr>,
            \<lparr>role = Assistant, content = Str ''[Response interrupted by user]''\<rparr>,
            \<lparr>role = User, content = Str ''wait''\<rparr>]
       \<and> \<not> claimed_sanitized conv (sanitizeConversation conv))"
  by (simp add: sanitizeConversation_def sanitize_at_def valid_pair_def stripped_content_def
      blank_def is_space_def interrupted_placeholder_def claimed_sanitized_def
      matching_results_def Let_def)

section \<open>Properties of the image pruning\<close>

lemma strip_at_length: "length (strip_at i c) = length c"
  by (simp add: strip_at_def)

lemma fold_strip_at:
  "distinct is \<Longrightarrow> \<forall>i\<in>set is. i < length c \<Longrightarrow>
   fold strip_at is c = map (\<lambda>i. if i \<in> set is then strip_images (c ! i) else c ! i) [0..<length c]"
proof (induction "is" arbitrary: c)
  case Nil
  then show ?case by (simp add: map_nth)
next
  case (Cons j js)
  have j: "j < length c" and jn: "j \<notin> set js" using Cons.prems by auto
  have "fold strip_at (j # js) c = fold strip_at js (strip_at j c)" by simp
  also have "\<dots> = map (\<lambda>i. if i \<in> set js then strip_images (strip_at j c ! i) else strip_at j c ! i)
                      [0..<length (strip_at j c)]"
    using Cons.prems by (intro Cons.IH) (auto simp add: strip_at_length)
  also have "\<dots> = map (\<lambda>i. if i \<in> set (j # js) then strip_images (c ! i) else c ! i) [0..<length c]"
    using j jn by (auto simp add: strip_at_def nth_list_update)
  finally show ?case .
qed

lemma take_filter_upt:
  "take k (filter P [0..<n]) = filter (\<lambda>i. P i \<and> length (filter P [0..<i]) < k) [0..<n]"
  by (induction n) auto

lemma filter_upt_take:
  assumes "i \<le> length conv"
  shows "length (filter (\<lambda>j. P (conv ! j)) [0..<i]) = length (filter P (take i conv))"
proof -
  have "take i conv = map (\<lambda>j. conv ! j) [0..<i]"
    using assms by (auto intro!: nth_equalityI)
  then show ?thesis by (simp add: filter_map comp_def)
qed

lemma imageIndices_length: "length (imageIndices conv) = length (filter has_image conv)"
  using filter_upt_take[of "length conv" conv has_image] by (simp add: imageIndices_def)

lemma pruneOldImages_map:
  "pruneOldImages conv =
     map (\<lambda>i. if has_image (conv ! i)
                  \<and> length (filter has_image (take i conv)) + MAX_CONTEXT_IMAGES
                      < length (filter has_image conv)
               then strip_images (conv ! i) else conv ! i) [0..<length conv]"
proof (cases "length (imageIndices conv) \<le> MAX_CONTEXT_IMAGES")
  case True
  then have "length (filter has_image conv) \<le> MAX_CONTEXT_IMAGES"
    by (simp add: imageIndices_length)
  then show ?thesis using True by (simp add: pruneOldImages_def map_nth)
next
  case False
  define k where "k = length (imageIndices conv) - MAX_CONTEXT_IMAGES"
  define S where "S = take k (imageIndices conv)"
  have d: "distinct S" by (simp add: S_def imageIndices_def)
  have r: "\<forall>i\<in>set S. i < length conv"
    using set_take_subset[of k "imageIndices conv"] by (auto simp add: S_def imageIndices_def)
  have mem: "i < length conv \<Longrightarrow>
     i \<in> set S \<longleftrightarrow> has_image (conv ! i)
        \<and> length (filter has_image (take i conv)) + MAX_CONTEXT_IMAGES
            < length (filter has_image conv)" for i
    using filter_upt_take[of i conv has_image] imageIndices_length[of conv]
    by (auto simp add: S_def k_def imageIndices_def take_filter_upt)
  have "pruneOldImages conv = fold strip_at S conv"
    using False by (simp add: pruneOldImages_def S_def k_def Let_def)
  also have "\<dots> = map (\<lambda>i. if i \<in> set S then strip_images (conv ! i) else conv ! i)
                      [0..<length conv]"
    using d r by (rule fold_strip_at)
  also have "\<dots> = map (\<lambda>i. if has_image (conv ! i)
                  \<and> length (filter has_image (take i conv)) + MAX_CONTEXT_IMAGES
                      < length (filter has_image conv)
               then strip_images (conv ! i) else conv ! i) [0..<length conv]"
    using mem by auto
  finally show ?thesis .
qed

lemma pruneOldImages_length [simp]: "length (pruneOldImages conv) = length conv"
  by (simp add: pruneOldImages_map)

lemma strip_images_cases:
  "strip_images m = m\<lparr>content :=
      (case filter (\<lambda>b. \<not> is_image b) (blocks_of (content m)) of
         [TextB t] \<Rightarrow> Str t
       | rest \<Rightarrow> Blocks rest)\<rparr>"
  by (auto simp add: strip_images_def Let_def split: list.splits block.splits)

text \<open>
  C8. With \<^verbatim>\<open>N = MAX_CONTEXT_IMAGES = 10\<close>, the pruning keeps the number and the positions
  of the turns. A turn is changed exactly when it bears an image and fewer than
  \<^verbatim>\<open>count - N\<close> image-bearing turns precede it, that is when it is one of the oldest
  \<^verbatim>\<open>count - N\<close> image-bearing turns; such a turn keeps its role and all its blocks that are
  not images, in order (a single remaining text block is stored as the plain string of its
  text). Every other turn is unchanged, and with at most \<^verbatim>\<open>N\<close> image-bearing turns the
  conversation is unchanged.
\<close>

theorem pruneOldImages_strips_oldest:
  "MAX_CONTEXT_IMAGES = 10 \<and>
   length (pruneOldImages conv) = length conv \<and>
   (length (filter has_image conv) \<le> MAX_CONTEXT_IMAGES \<longrightarrow> pruneOldImages conv = conv) \<and>
   (\<forall>i<length conv.
      if has_image (conv ! i)
         \<and> length (filter has_image (take i conv)) + MAX_CONTEXT_IMAGES
             < length (filter has_image conv)
      then role (pruneOldImages conv ! i) = role (conv ! i) \<and>
           content (pruneOldImages conv ! i) =
             (case filter (\<lambda>b. \<not> is_image b) (blocks_of (content (conv ! i))) of
                [TextB t] \<Rightarrow> Str t
              | rest \<Rightarrow> Blocks rest)
      else pruneOldImages conv ! i = conv ! i)"
proof -
  have unchanged: "pruneOldImages conv = conv"
    if "length (filter has_image conv) \<le> MAX_CONTEXT_IMAGES"
    using that by (simp add: pruneOldImages_def imageIndices_length)
  show ?thesis
    using unchanged
    by (simp add: pruneOldImages_map strip_images_cases MAX_CONTEXT_IMAGES_def)
qed

text \<open>
  The theorem at a conversation of eleven image-bearing user turns: the oldest one is
  reduced to its text, the second one keeps its image.
\<close>

theorem pruneOldImages_strips_oldest_witness:
  "(let m = \<lparr>role = User, content = Blocks [ImageB ''frame'', TextB ''what now?'']\<rparr>;
        c = [m, m, m, m, m, m, m, m, m, m, m]
    in pruneOldImages c ! 0 = \<lparr>role = User, content = Str ''what now?''\<rparr>
       \<and> pruneOldImages c ! 1 = m \<and> length (pruneOldImages c) = 11)"
proof -
  let ?m = "\<lparr>role = User, content = Blocks [ImageB ''frame'', TextB ''what now?'']\<rparr>"
  let ?c = "[?m, ?m, ?m, ?m, ?m, ?m, ?m, ?m, ?m, ?m, ?m]"
  have img: "has_image ?m" by (simp add: has_image_def)
  have all: "\<forall>i<length ?c.
      if has_image (?c ! i)
         \<and> length (filter has_image (take i ?c)) + MAX_CONTEXT_IMAGES
             < length (filter has_image ?c)
      then role (pruneOldImages ?c ! i) = role (?c ! i) \<and>
           content (pruneOldImages ?c ! i) =
             (case filter (\<lambda>b. \<not> is_image b) (blocks_of (content (?c ! i))) of
                [TextB t] \<Rightarrow> Str t
              | rest \<Rightarrow> Blocks rest)
      else pruneOldImages ?c ! i = ?c ! i"
    and len: "length (pruneOldImages ?c) = length ?c"
    using pruneOldImages_strips_oldest[of ?c] by blast+
  have z: "(0::nat) < length ?c" and o: "(1::nat) < length ?c" by simp_all
  have "role (pruneOldImages ?c ! 0) = User \<and> content (pruneOldImages ?c ! 0) = Str ''what now?''"
    using all[rule_format, OF z] img by (simp add: MAX_CONTEXT_IMAGES_def)
  moreover have "pruneOldImages ?c ! 1 = ?m"
    using all[rule_format, OF o] img by (simp add: MAX_CONTEXT_IMAGES_def)
  ultimately show ?thesis using len by (simp add: Let_def)
qed

section \<open>Evaluating the model\<close>

declare dispatch_sentences.simps [simp del]

lemma run_Nil [simp]: "run [] s = s"
  by (simp add: run_def)

lemma run_Cons [simp]: "run (e # es) s = run es (step e s)"
  by (simp add: run_def)


lemma tts_chunks_append [simp]: "tts_chunks (as @ bs) = tts_chunks as @ tts_chunks bs"
  by (induction as rule: tts_chunks.induct) simp_all

lemma tool_calls_append [simp]: "tool_calls (as @ bs) = tool_calls as @ tool_calls bs"
  by (simp add: tool_calls_def)

lemma requests_append [simp]: "requests (as @ bs) = requests as @ requests bs"
  by (induction as rule: requests.induct) simp_all

lemma tool_use_ids_append [simp]: "tool_use_ids (as @ bs) = tool_use_ids as @ tool_use_ids bs"
  by (induction as rule: tool_use_ids.induct) simp_all

lemma tool_result_ids_append [simp]:
  "tool_result_ids (as @ bs) = tool_result_ids as @ tool_result_ids bs"
  by (induction as rule: tool_result_ids.induct) simp_all

text \<open>With an input, the tutorial tool waits and every other tool returns.\<close>

lemma handleToolCall_ret:
  "args \<noteq> JUndefined \<Longrightarrow> handleToolCall n args i s = (r, s') \<Longrightarrow>
   (if n = ''Create_Tutorial'' then r = AwaitingGenerate else (\<exists>x. r = Returned x))"
  by (auto simp add: handleToolCall_def split: if_splits prod.splits)

lemma sanitize_prune_single:
  "pruneOldImages (sanitizeConversation [\<lparr>role = User, content = Str t\<rparr>])
   = [\<lparr>role = User, content = Str t\<rparr>]"
  by (simp add: sanitizeConversation_def sanitize_at_def pruneOldImages_def imageIndices_def
      has_image_def MAX_CONTEXT_IMAGES_def)

text \<open>The first event of a session: the greeting request is sent.\<close>

lemma session_tool_default [simp]: "session_tool (JObj []) = Some ''blender''"
  by (simp add: session_tool_def)

lemma session_start:
  "step (StartSession (JObj [])) (init cfg) =
   (init cfg)\<lparr>toolType := Some ''blender'',
     conversation := [\<lparr>role = User, content = Str ''[SESSION_START]''\<rparr>],
     isProcessing := True,
     trace := [StreamingRequest [\<lparr>role = User, content = Str ''[SESSION_START]''\<rparr>]],
     task := Some (AwaitStream False []), stack := [FrStartSession]\<rparr>"
  by (simp add: startSession_def Let_def push_msg_def sendToClaudeAndSpeak_def
      sanitize_prune_single init_def)

lemma checkPrompt_cong:
  "toolType s = toolType s' \<Longrightarrow> currentTutorial s = currentTutorial s'
   \<Longrightarrow> currentStepIndex s = currentStepIndex s' \<Longrightarrow> checkPrompt s = checkPrompt s'"
  by (simp add: checkPrompt_def split: option.split)

text \<open>The state after a session start whose first request failed.\<close>

lemma first_request_fails:
  "run [StartSession (JObj []), Resolve StreamFailed] (init example_config) =
   (init example_config)\<lparr>toolType := Some ''blender'', conversation := [greeting],
      recurringCheckInterval := True,
      trace := [StreamingRequest [greeting], Emit SessionStarted]\<rparr>"
  unfolding run_Cons run_Nil session_start
  by (simp add: resolve_def is_check_task_def resume_main_def leave_def main_finally_def
      main_finally_block_def startRecurringCheck_def log_def greeting_def init_def
      example_config_def)

lemma sanitize_prune_short:
  "length conv \<le> 10 \<Longrightarrow> \<not> list_ex (\<lambda>m. list_ex is_tool_use (blocks_of (content m))) conv
   \<Longrightarrow> pruneOldImages (sanitizeConversation conv) = conv"
proof -
  assume l: "length conv \<le> 10"
    and n: "\<not> list_ex (\<lambda>m. list_ex is_tool_use (blocks_of (content m))) conv"
  have "sanitized_msg conv i = conv ! i" if "i < length conv" for i
    using n that by (auto simp add: sanitized_msg_def orphaned_def list_ex_iff)
  then have s: "sanitizeConversation conv = conv"
    unfolding sanitizeConversation_map by (intro nth_equalityI) simp_all
  have "length (filter has_image conv) \<le> 10"
    by (rule order_trans[OF length_filter_le l])
  then have "pruneOldImages conv = conv"
    by (simp add: pruneOldImages_def imageIndices_length MAX_CONTEXT_IMAGES_def)
  with s show ?thesis by simp
qed


lemma not_blank_thanks: "\<not> blank ''thanks''"
  by (simp add: blank_def is_space_def)

lemma no_marker: "\<not> str_includes ''Try pressing G.'' ''[NO_GUIDANCE_NEEDED]''"
  by simp

lemma not_blank_hey: "\<not> blank ''hey''"
  by (simp add: blank_def is_space_def)

text \<open>The state after a first cycle that the user interrupted by speaking.\<close>

lemma first_cycle_interrupted:
  "run [StartSession (JObj []), PartialTranscript ''hey'', Resolve StreamFailed]
     (init example_config) =
   (init example_config)\<lparr>toolType := Some ''blender'', conversation := [greeting],
      recurringCheckInterval := True, recurringCheckCancelled := True, interrupted := True,
      trace := [StreamingRequest [greeting], ClaudeAbortStream, TtsInterrupt, Emit InterruptEv,
                Emit SessionStarted]\<rparr>"
  unfolding run_Cons run_Nil session_start
  by (simp add: onPartialTranscript_def not_blank_hey handleInterruption_def
      resolve_def is_check_task_def resume_main_def leave_def main_finally_def
      main_finally_block_def startRecurringCheck_def log_def greeting_def init_def
      example_config_def)


section \<open>Sentence-boundary dispatch\<close>

lemma dispatch_first_delta:
  "dispatch_sentences False ''Hello there. How '' = ([''Hello there. ''], ''How '')"
  by (simp add: dispatch_sentences.simps[of _ "''Hello there. How ''"]
      dispatch_sentences.simps[of _ "''How ''"] is_terminator_def is_space_def)

lemma dispatch_second_delta:
  "dispatch_sentences False ''How are you? Great.'' = ([''How are you? ''], ''Great.'')"
  by (simp add: dispatch_sentences.simps[of _ "''How are you? Great.''"]
      dispatch_sentences.simps[of _ "''Great.''"] is_terminator_def is_space_def)

lemma two_deltas_dispatch:
  assumes "task s = Some (AwaitStream c fullText)" "\<not> interrupted s" "sentenceBuffer s = []"
  shows "tts_chunks (trace (run [StreamText ''Hello there. How '', StreamText ''are you? Great.'',
            Resolve (StreamDone rcontent)] s))
         = tts_chunks (trace s) @ [''Hello there. '', ''How are you? '', ''Great. '']"
  using assms
  by (simp add: onStreamText_def handleTextChunkForTTS_def dispatch_first_delta
      dispatch_second_delta resolve_def is_check_task_def resume_main_def main_after_stream_def
      blank_def is_space_def suspend_def log_def)

text \<open>
  C7 (amended). In a main cycle that waits for its stream, is not interrupted and has an empty
  sentence buffer (as every cycle has when its request is sent), the text deltas
  \<^verbatim>\<open>"Hello there. How "\<close> and \<^verbatim>\<open>"are you? Great."\<close> followed by the end of the stream make
  the module send to the synthesizer exactly the three strings \<^verbatim>\<open>"Hello there. "\<close>,
  \<^verbatim>\<open>"How are you? "\<close> and \<^verbatim>\<open>"Great. "\<close>, in this order: the end-of-generation flush
  sends the remaining buffer with one space appended.
\<close>

theorem sentence_streaming_dispatch:
  "task s = Some (AwaitStream c fullText) \<Longrightarrow> \<not> interrupted s \<Longrightarrow> sentenceBuffer s = [] \<Longrightarrow>
   tts_chunks (trace (run [StreamText ''Hello there. How '', StreamText ''are you? Great.'',
      Resolve (StreamDone rcontent)] s))
   = tts_chunks (trace s) @ [''Hello there. '', ''How are you? '', ''Great. '']"
  by (rule two_deltas_dispatch)

text \<open>The theorem in the first cycle of a session.\<close>

theorem sentence_streaming_dispatch_witness:
  "task (step (StartSession (JObj [])) (init \<lparr>recurringEnabled = True, idleThresholdMs = 10000\<rparr>))
     = Some (AwaitStream False [])
   \<and> tts_chunks (trace (run [StreamText ''Hello there. How '', StreamText ''are you? Great.'',
        Resolve (StreamDone [TextB ''Hello there. How are you? Great.''])]
        (step (StartSession (JObj [])) (init \<lparr>recurringEnabled = True, idleThresholdMs = 10000\<rparr>))))
     = [''Hello there. '', ''How are you? '', ''Great. '']"
proof -
  let ?s = "step (StartSession (JObj [])) (init \<lparr>recurringEnabled = True, idleThresholdMs = 10000\<rparr>)"
  have t: "task ?s = Some (AwaitStream False [])" and i: "\<not> interrupted ?s"
    and b: "sentenceBuffer ?s = []" and tr: "tts_chunks (trace ?s) = []"
    unfolding session_start by (simp_all add: init_def)
  from sentence_streaming_dispatch[OF t i b] tr t show ?thesis by simp
qed

text \<open>
  C7 as stated fails: in the first cycle of a session the synthesizer does not receive the
  three strings of the claim, the third string it receives ends with a space.
\<close>

theorem sentence_streaming_claim_counterexample:
  "tts_chunks (trace (run [StartSession (JObj []), StreamText ''Hello there. How '',
        StreamText ''are you? Great.'',
        Resolve (StreamDone [TextB ''Hello there. How are you? Great.''])]
        (init \<lparr>recurringEnabled = True, idleThresholdMs = 10000\<rparr>)))
   \<noteq> [''Hello there. '', ''How are you? '', ''Great.'']"
proof -
  let ?s = "step (StartSession (JObj [])) (init \<lparr>recurringEnabled = True, idleThresholdMs = 10000\<rparr>)"
  have t: "task ?s = Some (AwaitStream False [])" and i: "\<not> interrupted ?s"
    and b: "sentenceBuffer ?s = []" and tr: "tts_chunks (trace ?s) = []"
    unfolding session_start by (simp_all add: init_def)
  from two_deltas_dispatch[OF t i b] tr show ?thesis by simp
qed

section \<open>The tool dispatcher on unknown names\<close>

text \<open>
  C9. For every tool name outside the dispatch table and every input, the dispatcher returns
  (it does not wait and does not raise) the result object
  \<^verbatim>\<open>{error: "Unknown tool: <name>"}\<close> and changes nothing. Each of the two tool loops
  that calls the dispatcher for such a name records this object as the result of the call
  and goes on with the next tool-use block: the loop of the recurring check for every
  tool-use block, the loop of the main cycle for every tool-use block that has an input.
  (For a tool-use block without an input the main loop does not reach the dispatcher: its
  log line throws first and ends the cycle, whatever the tool name.)
\<close>

theorem unknown_tool_error_result:
  "name \<notin> {''Create_Tutorial'', ''Progressed_Step'', ''Suggested_HotKey''} \<Longrightarrow>
   handleToolCall name args tid s
     = (Returned (JObj [(''error'', JStr (''Unknown tool: '' @ name))]), s)
   \<and> (\<not> interrupted s \<and> args \<noteq> JUndefined \<longrightarrow>
        main_tools (ToolUse name args tid # rest) results s
        = main_tools rest
            (results @ [ToolResult tid (JObj [(''error'', JStr (''Unknown tool: '' @ name))])])
            (log (ToolCall name args tid) s))
   \<and> (\<not> interrupted s \<and> args = JUndefined \<longrightarrow>
        main_tools (ToolUse name args tid # rest) results s = leave s)
   \<and> (\<not> recurringCheckCancelled s \<longrightarrow>
        check_tools (ToolUse name args tid # rest) results toCommit isFirstText round s
        = check_tools rest
            (results @ [ToolResult tid (JObj [(''error'', JStr (''Unknown tool: '' @ name))])])
            toCommit isFirstText round (log (ToolCall name args tid) s))"
  by (simp add: handleToolCall_def log_def)

text \<open>
  The theorem for a call of a tool \<^verbatim>\<open>Open_File\<close>, the only block of the first response
  of a session: when the stream ends the main loop runs in the state \<^verbatim>\<open>s\<close>, after the
  assistant turn has been appended. The dispatcher returns the error object, and the loop,
  with no tool-use block left, appends the result turn and awaits the stream of the next
  round.
\<close>

theorem unknown_tool_error_result_witness:
  "(let s1 = step (StartSession (JObj [])) (init example_config);
        args = JObj [(''path'', JStr ''a.blend'')];
        use = ToolUse ''Open_File'' args ''toolu_7'';
        err = JObj [(''error'', JStr ''Unknown tool: Open_File'')];
        s = push_msg \<lparr>role = Assistant, content = Blocks [use]\<rparr>
              (s1\<lparr>trace := trace s1 @ [TtsFlush, TtsCloseStream]\<rparr>)
    in step (Resolve (StreamDone [use])) s1 = main_tools [use] [] s
       \<and> handleToolCall ''Open_File'' args ''toolu_7'' s = (Returned err, s)
       \<and> main_tools [use] [] s
           = main_tools [] [ToolResult ''toolu_7'' err] (log (ToolCall ''Open_File'' args ''toolu_7'') s)
       \<and> conversation (main_tools [use] [] s)
           = [greeting, \<lparr>role = Assistant, content = Blocks [use]\<rparr>,
              \<lparr>role = User, content = Blocks [ToolResult ''toolu_7'' err]\<rparr>]
       \<and> task (main_tools [use] [] s) = Some (AwaitStream True []))"
proof -
  let ?s1 = "step (StartSession (JObj [])) (init example_config)"
  let ?args = "JObj [(''path'', JStr ''a.blend'')]"
  let ?use = "ToolUse ''Open_File'' ?args ''toolu_7''"
  let ?err = "JObj [(''error'', JStr ''Unknown tool: Open_File'')]"
  let ?a = "\<lparr>role = Assistant, content = Blocks [?use]\<rparr>"
  let ?u = "\<lparr>role = User, content = Blocks [ToolResult ''toolu_7'' ?err]\<rparr>"
  let ?s = "push_msg ?a (?s1\<lparr>trace := trace ?s1 @ [TtsFlush, TtsCloseStream]\<rparr>)"
  have n: "''Open_File'' \<notin> {''Create_Tutorial'', ''Progressed_Step'', ''Suggested_HotKey''}"
    by simp
  have i: "\<not> interrupted ?s \<and> ?args \<noteq> JUndefined"
    unfolding session_start by (simp add: init_def push_msg_def)
  note th = unknown_tool_error_result[OF n, of ?args "''toolu_7''" ?s "[]" "[]"]
  from th have h: "handleToolCall ''Open_File'' ?args ''toolu_7'' ?s = (Returned ?err, ?s)"
    by simp
  from th i have m: "main_tools [?use] [] ?s
      = main_tools [] [ToolResult ''toolu_7'' ?err] (log (ToolCall ''Open_File'' ?args ''toolu_7'') ?s)"
    by simp
  have sp: "pruneOldImages (sanitizeConversation [greeting, ?a, ?u]) = [greeting, ?a, ?u]"
    by (simp add: sanitizeConversation_def sanitize_at_def valid_pair_def pruneOldImages_def
        imageIndices_def has_image_def MAX_CONTEXT_IMAGES_def greeting_def Let_def
        numeral_3_eq_3)
  have c: "conversation (main_tools [] [ToolResult ''toolu_7'' ?err]
             (log (ToolCall ''Open_File'' ?args ''toolu_7'') ?s)) = [greeting, ?a, ?u]
        \<and> task (main_tools [] [ToolResult ''toolu_7'' ?err]
             (log (ToolCall ''Open_File'' ?args ''toolu_7'') ?s)) = Some (AwaitStream True [])"
    unfolding session_start
    by (simp add: main_after_tools_def sendToClaudeAndSpeak_def push_msg_def log_def sp
        greeting_def[symmetric] init_def Let_def suspend_def)
  have st: "step (Resolve (StreamDone [?use])) ?s1 = main_tools [?use] [] ?s"
  proof -
    have t: "task ?s1 = Some (AwaitStream False [])" "\<not> interrupted ?s1" "sentenceBuffer ?s1 = []"
      unfolding session_start by (simp_all add: init_def)
    have "resume_main (AwaitStream False []) (StreamDone [?use]) ?s1 = Some (main_tools [?use] [] ?s)"
      using t by (simp add: resume_main_def main_after_stream_def main_after_flush_def blank_def Let_def)
    then show ?thesis using t c m by (simp add: resolve_def is_check_task_def)
  qed
  show ?thesis unfolding Let_def using h m c st by simp
qed

section \<open>The interrupt flag and the forwarding of audio\<close>

lemma ext_refl [simp]: "ext s s"
  by (simp add: ext_def)

lemma ext_trans: "ext s s' \<Longrightarrow> ext s' s'' \<Longrightarrow> ext s s''"
  unfolding ext_def by (elim exE conjE) (rule_tac x = "as @ asa" in exI, auto)

lemma ext_same: "trace s' = trace s \<Longrightarrow> interrupted s' = interrupted s \<Longrightarrow> ext s s'"
  by (simp add: ext_def)

lemma ext_log: "\<not> is_agent_audio a \<Longrightarrow> ext s (log a s)"
  by (simp add: ext_def log_def)

lemma ext_push [simp]: "ext s (push_msg m s)"
  by (simp add: ext_def push_msg_def)

lemma ext_suspend [simp]: "ext s (suspend t s)"
  by (simp add: ext_def suspend_def)

lemma ext_leave [simp]: "ext s (leave s)"
  by (simp add: ext_def leave_def)

lemma ext_handleInterruption [simp]: "ext s (handleInterruption s)"
  by (simp add: ext_def handleInterruption_def is_agent_audio_def)

lemma ext_onPartial [simp]: "ext s (onPartialTranscript t s)"
  by (simp add: onPartialTranscript_def)

lemma no_audio_chunks [simp]: "\<not> list_ex is_agent_audio (map TtsSendTextChunk ss)"
  by (induction ss) (simp_all add: is_agent_audio_def)

lemma ext_handleText [simp]: "ext s (handleTextChunkForTTS c s)"
  by (simp add: handleTextChunkForTTS_def ext_def split: prod.splits)

lemma ext_onStreamText [simp]: "ext s (onStreamText c s)"
proof -
  have "ext s (handleTextChunkForTTS c (s\<lparr>task := t\<rparr>))" for t
    by (rule ext_trans[OF _ ext_handleText]) (simp add: ext_def)
  then show ?thesis
    by (simp add: onStreamText_def split: option.splits task.splits)
qed

lemma ext_handleToolCall: "handleToolCall n a i s = (r, s') \<Longrightarrow> ext s s'"
  by (auto simp add: handleToolCall_def createTutorial_start_def handleProgressedStep_def
      handleSuggestedHotKey_def ext_def log_def Let_def is_agent_audio_def
      split: prod.splits if_splits)

lemma ext_createTutorial_finish:
  "createTutorial_finish r s = Some (res, s') \<Longrightarrow> ext s s'"
  by (auto simp add: createTutorial_finish_def createTutorial_ready_def createTutorial_failed_def
      ext_def log_def is_agent_audio_def split: resolution.splits)

lemma ext_send: "sendToClaudeAndSpeak c s = (b, s') \<Longrightarrow> ext s s'"
  by (auto simp add: sendToClaudeAndSpeak_def ext_def Let_def is_agent_audio_def
      is_streaming_request_def split: if_splits)

lemma ext_upd_stack [simp]: "ext s (s'\<lparr>stack := fs\<rparr>) = ext s s'"
  by (simp add: ext_def)

lemma ext_main_after_tools [simp]: "ext s (main_after_tools rs s)"
proof (cases "interrupted s")
  case True
  then show ?thesis by (simp add: main_after_tools_def)
next
  case False
  let ?x = "(push_msg \<lparr>role = User, content = Blocks rs\<rparr> s)\<lparr>isProcessing := False\<rparr>"
  obtain b s' where c: "sendToClaudeAndSpeak True ?x = (b, s')" by force
  have "ext s ?x" by (simp add: ext_def push_msg_def)
  then have e: "ext s s'" using ext_send[OF c] by (rule ext_trans)
  then have "ext s (leave s')" by (rule ext_trans) simp
  then show ?thesis using False c e by (simp add: main_after_tools_def)
qed

lemma ext_main_tools [simp]: "ext s (main_tools ts rs s)"
proof (induction ts rs s rule: main_tools.induct)
  case (1 toolResults s)
  then show ?case by simp
next
  case (2 name args tid rest toolResults s)
  show ?case
  proof (cases "interrupted s")
    case True
    then show ?thesis by simp
  next
    case False
    let ?l = "log (ToolCall name args tid) s"
    obtain r s' where h: "handleToolCall name args tid ?l = (r, s')" by force
    have l: "ext s ?l" by (rule ext_log) (simp add: is_agent_audio_def)
    have e: "ext s s'" using l ext_handleToolCall[OF h] by (rule ext_trans)
    show ?thesis
    proof (cases "args = JUndefined")
      case True
      then show ?thesis using False by simp
    next
      case inp: False
      show ?thesis
      proof (cases r)
        case (Returned x)
        have "ext s' (main_tools rest (toolResults @ [ToolResult tid x]) s')"
          using "2.IH"[OF False inp h[symmetric] Returned] by simp
        with e have "ext s (main_tools rest (toolResults @ [ToolResult tid x]) s')"
          by (rule ext_trans)
        then show ?thesis using False inp h Returned by simp
      next
        case AwaitingGenerate
        have "ext s (suspend (AwaitToolMain (ToolUse name args tid) rest toolResults) s')"
          using e by (rule ext_trans) simp
        then show ?thesis using False inp h AwaitingGenerate by simp
      next
        case Threw
        have "ext s (leave s')" using e by (rule ext_trans) simp
        then show ?thesis using False inp h Threw by simp
      qed
    qed
  qed
qed simp_all

lemma ext_main_after_flush [simp]: "ext s (main_after_flush c ft rc s)"
proof -
  let ?s1 = "s\<lparr>trace := trace s @ [TtsFlush, TtsCloseStream]
                  @ (if ft \<noteq> []
                     then [Emit (if c then AgentTextContinue ft else AgentText ft)]
                     else [])\<rparr>"
  let ?s2 = "push_msg \<lparr>role = Assistant, content = Blocks rc\<rparr> ?s1"
  have "ext s ?s2" by (simp add: ext_def push_msg_def is_agent_audio_def)
  moreover have "ext ?s2 (main_tools (filter is_tool_use rc) [] ?s2)" by simp
  moreover have "ext ?s2 (leave ?s2)" by simp
  ultimately show ?thesis
    unfolding main_after_flush_def Let_def by (auto intro: ext_trans)
qed

lemma ext_main_after_stream [simp]: "ext s (main_after_stream c ft rc s)"
proof -
  have "ext s (suspend t (log (TtsSendTextChunk x) s))" for t x
    by (simp add: ext_def suspend_def log_def is_agent_audio_def)
  then show ?thesis by (simp add: main_after_stream_def)
qed

lemma ext_resume_main: "resume_main t r s = Some s' \<Longrightarrow> ext s s'"
proof -
  assume a: "resume_main t r s = Some s'"
  have buf: "ext s (main_after_flush c ft rc (s\<lparr>sentenceBuffer := []\<rparr>))" for c ft rc
    by (rule ext_trans[OF _ ext_main_after_flush]) (simp add: ext_def)
  have tool: "ext s (main_tools ts rs x)" if "createTutorial_finish r s = Some (res, x)"
    for ts rs res x
    using ext_createTutorial_finish[OF that] by (rule ext_trans) simp
  show ?thesis
    using a buf tool
    by (auto simp add: resume_main_def
        split: task.splits resolution.splits block.splits option.splits prod.splits)
qed

lemma ext_check_commit [simp]: "ext s (check_commit mc s)"
  by (simp add: check_commit_def ext_def leave_def log_def is_agent_audio_def)

lemma ext_check_tools [simp]: "ext s (check_tools ts rs mc f r s)"
proof (induction ts rs mc f r s rule: check_tools.induct)
  case (1 toolResults messagesToCommit isFirstText round s)
  have "ext s (leave (log (CheckCancelled BeforeFollowup) s))"
    by (simp add: ext_def leave_def log_def is_agent_audio_def)
  moreover have "ext s (suspend t (log (Request ms) s))" for t ms
    by (simp add: ext_def suspend_def log_def is_agent_audio_def)
  ultimately show ?case by (simp add: Let_def)
next
  case (2 name args tid rest toolResults messagesToCommit isFirstText round s)
  show ?case
  proof (cases "recurringCheckCancelled s")
    case True
    then show ?thesis by (simp add: ext_def leave_def log_def is_agent_audio_def)
  next
    case False
    let ?l = "log (ToolCall name args tid) s"
    obtain r s' where h: "handleToolCall name args tid ?l = (r, s')" by force
    have l: "ext s ?l" by (rule ext_log) (simp add: is_agent_audio_def)
    have e: "ext s s'" using l ext_handleToolCall[OF h] by (rule ext_trans)
    show ?thesis
    proof (cases r)
      case (Returned x)
      have "ext s' (check_tools rest (toolResults @ [ToolResult tid x]) messagesToCommit
                      isFirstText round s')"
        using "2.IH"[OF False h[symmetric] Returned] by simp
      with e have "ext s (check_tools rest (toolResults @ [ToolResult tid x]) messagesToCommit
                      isFirstText round s')"
        by (rule ext_trans)
      then show ?thesis using False h Returned by simp
    next
      case AwaitingGenerate
      have "ext s (suspend (AwaitCheckTool (ToolUse name args tid) rest toolResults
                      messagesToCommit isFirstText round) s')"
        using e by (rule ext_trans) simp
      then show ?thesis using False h AwaitingGenerate by simp
    next
      case Threw
      have "ext s (leave s')" using e by (rule ext_trans) simp
      then show ?thesis using False h Threw by simp
    qed
  qed
qed simp_all

lemma ext_check_after_text [simp]: "ext s (check_after_text ts mc f r s)"
  by (simp add: check_after_text_def)

lemma ext_check_round [simp]: "ext s (check_round r rc mc f s)"
proof -
  have "ext s (leave (log a s))" if "\<not> is_agent_audio a" for a
    using that by (simp add: ext_def leave_def log_def)
  moreover have "ext s (suspend t (s\<lparr>trace := trace s @ [Emit (if f then AgentText x else AgentTextContinue x), TtsSendText x]\<rparr>))" for t x
    by (simp add: ext_def suspend_def is_agent_audio_def)
  ultimately show ?thesis
    by (simp add: check_round_def Let_def is_agent_audio_def)
qed

lemma ext_resume_check: "resume_check t r s = Some s' \<Longrightarrow> ext s s'"
proof -
  assume a: "resume_check t r s = Some s'"
  have lg: "ext s (leave (log a s))" if "\<not> is_agent_audio a" for a
    using that by (simp add: ext_def leave_def log_def)
  have tool: "ext s (check_tools ts rs mc f n x)" if "createTutorial_finish r s = Some (res, x)"
    for ts rs res x mc f n
    using ext_createTutorial_finish[OF that] by (rule ext_trans) simp
  show ?thesis
    using a tool lg[of "CheckCancelled AfterResponse"] lg[of "CheckCancelled AfterTts"]
    by (auto simp add: resume_check_def is_agent_audio_def
        split: task.splits resolution.splits block.splits option.splits prod.splits if_splits)
qed

lemma ext_recurringCheck [simp]: "ext s (recurringCheck now s)"
  by (simp add: recurringCheck_def Let_def ext_def is_agent_audio_def)

lemma ext_startRecurringCheck [simp]: "ext s (startRecurringCheck s)"
  by (simp add: startRecurringCheck_def ext_def)

lemma ext_main_finally_block: "main_finally_block s = (b, s') \<Longrightarrow> ext s s'"
proof -
  assume a: "main_finally_block s = (b, s')"
  have "ext s (s\<lparr>isProcessing := False, hasPendingUserMessage := False\<rparr>)"
    by (simp add: ext_def)
  then have "ext s x" if "sendToClaudeAndSpeak False (s\<lparr>isProcessing := False, hasPendingUserMessage := False\<rparr>) = (b, x)" for x
    using ext_send[OF that] by (rule ext_trans)
  moreover have "ext s (s\<lparr>isProcessing := False\<rparr>)" by (simp add: ext_def)
  ultimately show ?thesis
    using a by (auto simp add: main_finally_block_def Let_def split: if_splits)
qed

lemma ext_unwind [simp]: "ext s (unwind fs s)"
proof (induction fs s rule: unwind.induct)
  case (1 s)
  then show ?case by (simp add: ext_def)
next
  case (2 fs s)
  have "ext s (log (Emit SessionStarted) (startRecurringCheck s))"
    by (rule ext_trans[OF ext_startRecurringCheck]) (simp add: ext_log is_agent_audio_def)
  then show ?case using 2 by (auto intro: ext_trans)
next
  case (3 fs s)
  obtain b s' where h: "main_finally_block s = (b, s')" by force
  have e: "ext s s'" using h by (rule ext_main_finally_block)
  show ?case
  proof (cases b)
    case True
    then show ?thesis using h e by simp
  next
    case False
    have "ext s' (unwind fs s')" using "3.IH"[OF h[symmetric]] False by simp
    with e have "ext s (unwind fs s')" by (rule ext_trans)
    then show ?thesis using h False by simp
  qed
qed simp_all

lemma ext_main_finally [simp]: "ext s (main_finally s)"
proof -
  obtain b s' where h: "main_finally_block s = (b, s')" by force
  have e: "ext s s'" using h by (rule ext_main_finally_block)
  then have "ext s (unwind (stack s') s')" by (rule ext_trans) simp
  then show ?thesis using h e by (simp add: main_finally_def)
qed

lemma ext_check_finally [simp]: "ext s (check_finally s)"
proof -
  let ?s1 = "s\<lparr>isRecurringCheckRunning := False, recurringCheckCancelled := False,
                 isProcessing := False\<rparr>"
  have e1: "ext s ?s1" by (simp add: ext_def)
  have e2: "ext s (?s1\<lparr>hasPendingUserMessage := False\<rparr>)" by (simp add: ext_def)
  obtain b s' where h: "sendToClaudeAndSpeak False (?s1\<lparr>hasPendingUserMessage := False\<rparr>) = (b, s')"
    by force
  have e: "ext s s'" using e2 ext_send[OF h] by (rule ext_trans)
  then have u: "ext s (unwind (stack s') s')" by (rule ext_trans) simp
  have u1: "ext s (unwind (stack ?s1) ?s1)" using e1 by (rule ext_trans) simp
  show ?thesis using h e u u1 by (simp add: check_finally_def Let_def)
qed

lemma ext_startSession [simp]: "ext s (startSession d s)"
proof -
  have g: "ext s (log (Emit SessionStarted) s)" by (simp add: ext_log is_agent_audio_def)
  show ?thesis
  proof (cases "session_tool d")
    case None
    then show ?thesis using g by (simp add: startSession_def ext_def)
  next
    case (Some t)
    let ?s2 = "push_msg \<lparr>role = User, content = Str ''[SESSION_START]''\<rparr>
                (s\<lparr>toolType := Some t\<rparr>)"
    have e2: "ext s ?s2" by (simp add: ext_def push_msg_def)
    obtain b s' where h: "sendToClaudeAndSpeak False ?s2 = (b, s')" by force
    have e: "ext s s'" using e2 ext_send[OF h] by (rule ext_trans)
    have "ext s' (log (Emit SessionStarted) (startRecurringCheck s'))"
      by (rule ext_trans[OF ext_startRecurringCheck]) (simp add: ext_log is_agent_audio_def)
    with e have f: "ext s (log (Emit SessionStarted) (startRecurringCheck s'))"
      by (rule ext_trans)
    show ?thesis using Some h e f g by (simp add: startSession_def Let_def)
  qed
qed

lemma ext_onCommitted [simp]: "ext s (onCommittedTranscript t now s)"
proof (cases "blank t")
  case True
  then show ?thesis by (simp add: onCommittedTranscript_def)
next
  case False
  let ?s1 = "s\<lparr>lastUserInputAt := now\<rparr>"
  let ?s2 = "(if conversation ?s1 \<noteq> [] \<and> role (last (conversation ?s1)) = User
                     then push_msg \<lparr>role = Assistant, content = Str interrupted_placeholder\<rparr> ?s1
                     else ?s1)"
  let ?s3 = "push_msg \<lparr>role = User, content = buildUserContent t ?s2\<rparr> ?s2"
  let ?s4 = "handleInterruption (log (Emit (UserText t)) ?s3)"
  have e4: "ext s ?s4"
    by (simp add: ext_def push_msg_def handleInterruption_def log_def is_agent_audio_def)
  have p: "ext s (?s4\<lparr>hasPendingUserMessage := True\<rparr>)"
    by (rule ext_trans[OF e4]) (simp add: ext_def)
  obtain b s' where h: "sendToClaudeAndSpeak False ?s4 = (b, s')" by force
  have e: "ext s s'" using e4 ext_send[OF h] by (rule ext_trans)
  show ?thesis
    unfolding onCommittedTranscript_def Let_def using False h e p by simp
qed

lemma ext_resolve [simp]: "ext s (resolve r s)"
proof -
  have m: "ext s (main_finally s')" if "resume_main t r s = Some s'" for t s'
    using ext_resume_main[OF that] by (rule ext_trans) simp
  have c: "ext s (check_finally s')" if "resume_check t r s = Some s'" for t s'
    using ext_resume_check[OF that] by (rule ext_trans) simp
  show ?thesis
    using m c ext_resume_main ext_resume_check
    by (auto simp add: resolve_def split: option.splits)
qed

lemma ext_step: "interrupted s \<or> (\<forall>d. e \<noteq> TtsAudio d) \<Longrightarrow> ext s (step e s)"
  by (cases e) (auto simp add: ext_same onTTSAudioChunk_def)

lemma new_actions_ext:
  "ext s s' \<Longrightarrow> trace s' = trace s @ new_actions s s'
     \<and> \<not> list_ex is_agent_audio (new_actions s s')
     \<and> (interrupted s \<and> \<not> interrupted s' \<longrightarrow> list_ex is_streaming_request (new_actions s s'))"
  by (auto simp add: ext_def new_actions_def)

lemma step_trace: "\<exists>as. trace (step e s) = trace s @ as"
proof (cases "\<exists>d. e = TtsAudio d")
  case True
  then show ?thesis by (auto simp add: onTTSAudioChunk_def)
next
  case False
  then have "ext s (step e s)" by (simp add: ext_step)
  then show ?thesis by (auto simp add: ext_def)
qed

lemma run_trace: "\<exists>as. trace (run es s) = trace s @ as"
proof (induction es arbitrary: s)
  case Nil
  then show ?case by simp
next
  case (Cons e es)
  obtain bs where b: "trace (step e s) = trace s @ bs" using step_trace by blast
  obtain cs where c: "trace (run es (step e s)) = trace (step e s) @ cs" using Cons by blast
  show ?case using b c by simp
qed

lemma new_actions_run: "trace (run es s) = trace s @ new_actions s (run es s)"
  using run_trace[of es s] by (auto simp add: new_actions_def)

lemma flag_kept_run:
  "interrupted s \<Longrightarrow> trace (run es s) = trace s @ as
   \<Longrightarrow> \<not> list_ex is_streaming_request as
   \<Longrightarrow> interrupted (run es s) \<and> \<not> list_ex is_agent_audio as"
proof (induction es arbitrary: s as)
  case Nil
  then show ?case by simp
next
  case (Cons e es)
  have "ext s (step e s)" using Cons.prems(1) by (simp add: ext_step)
  then obtain bs where b: "trace (step e s) = trace s @ bs"
    and nb: "\<not> list_ex is_agent_audio bs"
    and fb: "interrupted s \<and> \<not> interrupted (step e s) \<longrightarrow> list_ex is_streaming_request bs"
    by (auto simp add: ext_def)
  obtain cs where c: "trace (run es (step e s)) = trace (step e s) @ cs"
    using run_trace by blast
  have as: "as = bs @ cs" using Cons.prems(2) b c by simp
  then have nsr: "\<not> list_ex is_streaming_request bs" "\<not> list_ex is_streaming_request cs"
    using Cons.prems(3) by simp_all
  then have i1: "interrupted (step e s)" using fb Cons.prems(1) by blast
  from Cons.IH[OF i1 c nsr(2)] nb as show ?case by simp
qed




text \<open>
  C10. A step of the module clears the interrupt flag only if it starts a main cycle (sends a
  streaming request); the timer tick that starts a recurring check does not clear it. So once
  the flag is set, whatever happens next, as long as no main cycle has started the flag stays
  set and no audio chunk is forwarded to the client: each one that arrives is discarded.
\<close>

theorem interrupt_flag_cleared_only_by_main_cycle:
  "interrupted s \<Longrightarrow>
   (\<not> interrupted (step e s) \<longrightarrow> list_ex is_streaming_request (new_actions s (step e s)))
   \<and> interrupted (step (Tick now) s)
   \<and> step (TtsAudio d) s = s
   \<and> (\<forall>es. \<not> list_ex is_streaming_request (new_actions s (run es s))
          \<longrightarrow> interrupted (run es s) \<and> \<not> list_ex is_agent_audio (new_actions s (run es s)))"
proof -
  assume i: "interrupted s"
  have one: "list_ex is_streaming_request (new_actions s (step e s))"
    if "\<not> interrupted (step e s)"
    using new_actions_ext[OF ext_step[of s e]] i that by blast
  have tick: "interrupted (step (Tick now) s)"
    using i by (simp add: recurringCheck_def Let_def)
  have audio: "step (TtsAudio d) s = s"
    using i by (simp add: onTTSAudioChunk_def)
  have many: "interrupted (run es s) \<and> \<not> list_ex is_agent_audio (new_actions s (run es s))"
    if "\<not> list_ex is_streaming_request (new_actions s (run es s))" for es
    using flag_kept_run[OF i new_actions_run that] .
  show ?thesis using one tick audio many by blast
qed

text \<open>
  The theorem after a first cycle that the user interrupted without a transcript being
  committed: the recurring check that follows speaks its guidance, and the two audio chunks
  of it are discarded, the flag being still set.
\<close>

theorem interrupt_flag_cleared_only_by_main_cycle_witness:
  "(let s = run [StartSession (JObj []), PartialTranscript ''hey'', Resolve StreamFailed]
              (init example_config);
        s' = run [Frame ''frame1'', Tick 20000, Resolve (Responded [TextB ''Try pressing G.'']),
                  TtsAudio ''audio1'', Resolve TtsSent, TtsAudio ''audio2''] s
    in interrupted s \<and> interrupted s'
       \<and> new_actions s s'
           = [Request [greeting, \<lparr>role = User, content = Blocks [ImageB ''frame1'',
                                     TextB example_prompt]\<rparr>],
              Emit (AgentText ''Try pressing G.''), TtsSendText ''Try pressing G.''])"
proof -
  let ?uc = "Blocks [ImageB ''frame1'', TextB example_prompt]"
  let ?c = "\<lparr>role = User, content = ?uc\<rparr>"
  let ?g = "\<lparr>role = Assistant, content = Blocks [TextB ''Try pressing G.'']\<rparr>"
  let ?tr = "[StreamingRequest [greeting], ClaudeAbortStream, TtsInterrupt, Emit InterruptEv,
                Emit SessionStarted]"
  let ?s = "(init example_config)\<lparr>toolType := Some ''blender'', conversation := [greeting],
      recurringCheckInterval := True, recurringCheckCancelled := True, interrupted := True,
      trace := ?tr\<rparr>"
  let ?s3 = "?s\<lparr>latestFrame := Some ''frame1''\<rparr>"
  let ?s4 = "?s3\<lparr>isRecurringCheckRunning := True, recurringCheckCancelled := False,
      isProcessing := True, trace := ?tr @ [Request [greeting, ?c]],
      task := Some (AwaitCheckResponse ?uc)\<rparr>"
  let ?s5 = "?s4\<lparr>trace := ?tr @ [Request [greeting, ?c], Emit (AgentText ''Try pressing G.''),
        TtsSendText ''Try pressing G.''],
      task := Some (AwaitCheckTts [?c, ?g] [] 0)\<rparr>"
  let ?s6 = "?s3\<lparr>conversation := [greeting, ?c, ?g], recurringCheckCancelled := False,
      trace := ?tr @ [Request [greeting, ?c], Emit (AgentText ''Try pressing G.''),
        TtsSendText ''Try pressing G.'']\<rparr>"
  let ?es = "[Frame ''frame1'', Tick 20000, Resolve (Responded [TextB ''Try pressing G.'']),
                  TtsAudio ''audio1'', Resolve TtsSent, TtsAudio ''audio2'']"
  have sp1: "pruneOldImages (sanitizeConversation [greeting]) = [greeting]"
    by (rule sanitize_prune_short) (simp_all add: greeting_def)
  have p: "checkPrompt (?s3\<lparr>isRecurringCheckRunning := True, recurringCheckCancelled := False,
                       isProcessing := True\<rparr>) = example_prompt"
    unfolding example_prompt_def by (rule checkPrompt_cong) (simp_all add: init_def)
  have e3: "step (Frame ''frame1'') ?s = ?s3" by simp
  have e4: "step (Tick 20000) ?s3 = ?s4"
    unfolding step.simps recurringCheck_def Let_def p
    by (simp add: frame_present_def buildUserContent_def idle_threshold_def sp1 init_def
        example_config_def)
  have e5: "step (Resolve (Responded [TextB ''Try pressing G.''])) ?s4 = ?s5"
    by (simp add: resolve_def is_check_task_def resume_check_def check_round_def first_text_def
        no_marker suspend_def init_def Let_def)
  have a1: "step (TtsAudio ''audio1'') ?s5 = ?s5"
    by (simp add: onTTSAudioChunk_def)
  have e6: "step (Resolve TtsSent) ?s5 = ?s6"
    by (simp add: resolve_def is_check_task_def resume_check_def check_after_text_def
        check_commit_def leave_def check_finally_def init_def Let_def)
  have a2: "step (TtsAudio ''audio2'') ?s6 = ?s6"
    by (simp add: onTTSAudioChunk_def)
  have r: "run ?es ?s = ?s6"
    by (simp only: run_Cons run_Nil e3 e4 e5 a1 e6 a2)
  have i: "interrupted ?s" by simp
  have n: "new_actions ?s (run ?es ?s) = [Request [greeting, ?c],
      Emit (AgentText ''Try pressing G.''), TtsSendText ''Try pressing G.'']"
    unfolding r by (simp add: new_actions_def)
  have "\<not> list_ex is_streaming_request (new_actions ?s (run ?es ?s))"
    unfolding n by (simp add: is_streaming_request_def)
  with interrupt_flag_cleared_only_by_main_cycle[OF i] have "interrupted (run ?es ?s)"
    by blast
  with i n show ?thesis
    unfolding Let_def first_cycle_interrupted by blast
qed

section \<open>Alternation of the history\<close>

text \<open>
  C1, evaluated on the code. The first request of a session fails (the provider rejects it),
  so the history is left with the user turn of the greeting as its last turn. The recurring
  check that follows sends this history with its own user turn appended: a request with two
  consecutive user turns, the second of which carries no tool result. The check then commits
  its turns, and the history sent by the next main cycle holds the two consecutive user turns
  too. The recurring check has no counterpart of the placeholder that
  \<^verbatim>\<open>onCommittedTranscript\<close> inserts after a trailing user turn.
\<close>

theorem recurring_check_breaks_alternation:
  "(let check_turn = \<lparr>role = User, content = Blocks [ImageB ''frame1'',
          TextB example_prompt]\<rparr>;
        guidance = \<lparr>role = Assistant, content = Blocks [TextB ''Try pressing G.'']\<rparr>;
        thanks = \<lparr>role = User, content = Blocks [ImageB ''frame1'', TextB ''thanks'']\<rparr>;
        s = run [StartSession (JObj []), Resolve StreamFailed, Frame ''frame1'', Tick 20000,
                 Resolve (Responded [TextB ''Try pressing G.'']), Resolve TtsSent,
                 CommittedTranscript ''thanks'' 40000] (init example_config)
    in requests (trace s)
         = [[greeting], [greeting, check_turn], [greeting, check_turn, guidance, thanks]]
       \<and> conversation s = [greeting, check_turn, guidance, thanks]
       \<and> \<not> alternation_ok [greeting, check_turn]
       \<and> \<not> alternation_ok [greeting, check_turn, guidance, thanks])"
proof -
  let ?P = "example_prompt"
  let ?uc = "Blocks [ImageB ''frame1'', TextB ?P]"
  let ?c = "\<lparr>role = User, content = ?uc\<rparr>"
  let ?g = "\<lparr>role = Assistant, content = Blocks [TextB ''Try pressing G.'']\<rparr>"
  let ?t = "\<lparr>role = User, content = Blocks [ImageB ''frame1'', TextB ''thanks'']\<rparr>"
  let ?s2 = "(init example_config)\<lparr>toolType := Some ''blender'', conversation := [greeting],
      recurringCheckInterval := True,
      trace := [StreamingRequest [greeting], Emit SessionStarted]\<rparr>"
  let ?s3 = "?s2\<lparr>latestFrame := Some ''frame1''\<rparr>"
  let ?s4 = "?s3\<lparr>isRecurringCheckRunning := True, isProcessing := True,
      trace := [StreamingRequest [greeting], Emit SessionStarted, Request [greeting, ?c]],
      task := Some (AwaitCheckResponse ?uc)\<rparr>"
  let ?s5 = "?s4\<lparr>trace := [StreamingRequest [greeting], Emit SessionStarted,
        Request [greeting, ?c], Emit (AgentText ''Try pressing G.''),
        TtsSendText ''Try pressing G.''],
      task := Some (AwaitCheckTts [?c, ?g] [] 0)\<rparr>"
  let ?s6 = "?s3\<lparr>conversation := [greeting, ?c, ?g],
      trace := [StreamingRequest [greeting], Emit SessionStarted,
        Request [greeting, ?c], Emit (AgentText ''Try pressing G.''),
        TtsSendText ''Try pressing G.'']\<rparr>"
  have sp1: "pruneOldImages (sanitizeConversation [greeting]) = [greeting]"
    by (rule sanitize_prune_short) (simp_all add: greeting_def)
  have sp4: "pruneOldImages (sanitizeConversation [greeting, ?c, ?g, ?t]) = [greeting, ?c, ?g, ?t]"
    by (rule sanitize_prune_short) (simp_all add: greeting_def)
  have p: "checkPrompt (?s3\<lparr>isRecurringCheckRunning := True, recurringCheckCancelled := False,
                       isProcessing := True\<rparr>) = ?P"
    unfolding example_prompt_def by (rule checkPrompt_cong) (simp_all add: init_def)
  have e3: "step (Frame ''frame1'') ?s2 = ?s3" by simp
  have e4: "step (Tick 20000) ?s3 = ?s4"
    unfolding step.simps recurringCheck_def Let_def p
    by (simp add: frame_present_def buildUserContent_def idle_threshold_def sp1 init_def
        example_config_def)
  have e5: "step (Resolve (Responded [TextB ''Try pressing G.''])) ?s4 = ?s5"
    by (simp add: resolve_def is_check_task_def resume_check_def check_round_def first_text_def
        no_marker suspend_def init_def Let_def)
  have e6: "step (Resolve TtsSent) ?s5 = ?s6"
    by (simp add: resolve_def is_check_task_def resume_check_def check_after_text_def
        check_commit_def leave_def check_finally_def init_def Let_def)
  have e7: "step (CommittedTranscript ''thanks'' 40000) ?s6 =
     ?s6\<lparr>lastUserInputAt := 40000, conversation := [greeting, ?c, ?g, ?t],
          interrupted := False, recurringCheckCancelled := True, isProcessing := True,
          sentenceBuffer := [],
          trace := [StreamingRequest [greeting], Emit SessionStarted,
            Request [greeting, ?c], Emit (AgentText ''Try pressing G.''),
            TtsSendText ''Try pressing G.'', Emit (UserText ''thanks''), ClaudeAbortStream,
            TtsInterrupt, Emit InterruptEv, StreamingRequest [greeting, ?c, ?g, ?t]],
          task := Some (AwaitStream False []), stack := [FrCommitted]\<rparr>"
    unfolding step.simps onCommittedTranscript_def Let_def
    by (simp add: not_blank_thanks push_msg_def buildUserContent_def log_def
        handleInterruption_def sendToClaudeAndSpeak_def sp4 init_def Let_def)
  have r: "run [StartSession (JObj []), Resolve StreamFailed, Frame ''frame1'', Tick 20000,
                 Resolve (Responded [TextB ''Try pressing G.'']), Resolve TtsSent,
                 CommittedTranscript ''thanks'' 40000] (init example_config)
           = step (CommittedTranscript ''thanks'' 40000) ?s6"
    using first_request_fails by (simp only: run_Cons run_Nil e3 e4 e5 e6)
  show ?thesis
    unfolding Let_def r e7
    by (simp add: alternation_ok_def tool_result_turn_def greeting_def)
qed

section \<open>Atomic commit of the recurring check\<close>

text \<open>A tool handler changes the tutorial state and the trace, and nothing else.\<close>

lemma handleToolCall_frame:
  "handleToolCall n a i s = (r, s') \<Longrightarrow>
   s' = s\<lparr>currentTutorial := currentTutorial s', currentStepIndex := currentStepIndex s',
          trace := trace s'\<rparr>"
  by (auto simp add: handleToolCall_def createTutorial_start_def handleProgressedStep_def
      handleSuggestedHotKey_def log_def Let_def split: if_splits)

lemma createTutorial_finish_frame:
  "createTutorial_finish r s = Some (res, s') \<Longrightarrow>
   s' = s\<lparr>currentTutorial := currentTutorial s', currentStepIndex := currentStepIndex s',
          trace := trace s'\<rparr>"
  by (auto simp add: createTutorial_finish_def createTutorial_ready_def createTutorial_failed_def
      log_def split: resolution.splits)

lemma frame_fields:
  assumes "s' = s\<lparr>currentTutorial := ct, currentStepIndex := ci, trace := tr\<rparr>"
  shows "conversation s' = conversation s" "recurringCheckCancelled s' = recurringCheckCancelled s"
    "interrupted s' = interrupted s" "isProcessing s' = isProcessing s" "task s' = task s"
    "stack s' = stack s" "hasPendingUserMessage s' = hasPendingUserMessage s"
    "toolType s' = toolType s" "sentenceBuffer s' = sentenceBuffer s"
  using assms by simp_all

lemma check_outcome_leave [simp]: "check_outcome mc s (leave (log a s))"
  by (simp add: check_outcome_def leave_def log_def)

lemma check_outcome_leave' [simp]: "check_outcome mc s (leave s)"
  by (simp add: check_outcome_def leave_def)





















section \<open>User utterances queued behind a cycle\<close>

lemma quiet_refl [simp]: "quiet s s"
  by (simp add: quiet_def)

lemma quiet_trans: "quiet s s' \<Longrightarrow> quiet s' s'' \<Longrightarrow> quiet s s''"
proof -
  assume a: "quiet s s'" and b: "quiet s' s''"
  from a obtain as where as: "trace s' = trace s @ as" "\<not> list_ex is_streaming_request as"
    and e1: "s' = s\<lparr>trace := trace s', task := task s', conversation := conversation s',
             currentTutorial := currentTutorial s', currentStepIndex := currentStepIndex s',
             sentenceBuffer := sentenceBuffer s'\<rparr>"
    by (auto simp add: quiet_def)
  from b obtain bs where bs: "trace s'' = trace s' @ bs" "\<not> list_ex is_streaming_request bs"
    and e2: "s'' = s'\<lparr>trace := trace s'', task := task s'', conversation := conversation s'',
             currentTutorial := currentTutorial s'', currentStepIndex := currentStepIndex s'',
             sentenceBuffer := sentenceBuffer s''\<rparr>"
    by (auto simp add: quiet_def)
  have "s'' = s\<lparr>trace := trace s'', task := task s'', conversation := conversation s'',
             currentTutorial := currentTutorial s'', currentStepIndex := currentStepIndex s'',
             sentenceBuffer := sentenceBuffer s''\<rparr>"
    by (subst e2, subst e1) simp
  moreover have "trace s'' = trace s @ (as @ bs)" "\<not> list_ex is_streaming_request (as @ bs)"
    using as bs by simp_all
  ultimately show ?thesis unfolding quiet_def by blast
qed


lemma quiet_log: "\<not> is_streaming_request a \<Longrightarrow> quiet s (log a s)"
  by (simp add: quiet_def log_def)

lemma quiet_leave [simp]: "quiet s (leave s)"
  by (simp add: quiet_def leave_def)

lemma quiet_suspend [simp]: "quiet s (suspend t s)"
  by (simp add: quiet_def suspend_def)

lemma quiet_handleToolCall: "handleToolCall n a i s = (r, s') \<Longrightarrow> quiet s s'"
  by (auto simp add: handleToolCall_def createTutorial_start_def handleProgressedStep_def
      handleSuggestedHotKey_def quiet_def log_def Let_def is_streaming_request_def
      split: if_splits)


lemma quiet_check_commit [simp]: "quiet s (check_commit mc s)"
  by (simp add: check_commit_def quiet_def leave_def log_def is_streaming_request_def)

lemma quiet_check_tools [simp]: "quiet s (check_tools ts rs mc f r s)"
proof (induction ts rs mc f r s rule: check_tools.induct)
  case (1 toolResults messagesToCommit isFirstText round s)
  have "quiet s (leave (log (CheckCancelled BeforeFollowup) s))"
    by (simp add: quiet_def leave_def log_def is_streaming_request_def)
  moreover have "quiet s (suspend t (log (Request ms) s))" for t ms
    by (simp add: quiet_def suspend_def log_def is_streaming_request_def)
  ultimately show ?case by (simp add: Let_def)
next
  case (2 name args tid rest toolResults messagesToCommit isFirstText round s)
  show ?case
  proof (cases "recurringCheckCancelled s")
    case True
    then show ?thesis by (simp add: quiet_def leave_def log_def is_streaming_request_def)
  next
    case False
    let ?l = "log (ToolCall name args tid) s"
    obtain r s' where h: "handleToolCall name args tid ?l = (r, s')" by force
    have l: "quiet s ?l" by (rule quiet_log) (simp add: is_streaming_request_def)
    have e: "quiet s s'" using l quiet_handleToolCall[OF h] by (rule quiet_trans)
    show ?thesis
    proof (cases r)
      case (Returned x)
      have "quiet s' (check_tools rest (toolResults @ [ToolResult tid x]) messagesToCommit
                      isFirstText round s')"
        using "2.IH"[OF False h[symmetric] Returned] by simp
      with e have "quiet s (check_tools rest (toolResults @ [ToolResult tid x]) messagesToCommit
                      isFirstText round s')"
        by (rule quiet_trans)
      then show ?thesis using False h Returned by simp
    next
      case AwaitingGenerate
      have "quiet s (suspend (AwaitCheckTool (ToolUse name args tid) rest toolResults
                      messagesToCommit isFirstText round) s')"
        using e by (rule quiet_trans) simp
      then show ?thesis using False h AwaitingGenerate by simp
    next
      case Threw
      have "quiet s (leave s')" using e by (rule quiet_trans) simp
      then show ?thesis using False h Threw by simp
    qed
  qed
qed simp_all

lemma quiet_check_after_text [simp]: "quiet s (check_after_text ts mc f r s)"
  by (simp add: check_after_text_def)

lemma quiet_check_round [simp]: "quiet s (check_round r rc mc f s)"
proof -
  have "quiet s (leave (log a s))" if "\<not> is_streaming_request a" for a
    using that by (simp add: quiet_def leave_def log_def)
  moreover have "quiet s (suspend t (s\<lparr>trace := trace s @ [Emit (if f then AgentText x else AgentTextContinue x), TtsSendText x]\<rparr>))" for t x
    by (simp add: quiet_def suspend_def is_streaming_request_def)
  ultimately show ?thesis
    by (simp add: check_round_def Let_def is_streaming_request_def)
qed


























section \<open>The tool round of a main cycle\<close>

text \<open>A tool handler adds neither a tool call nor a request to the trace.\<close>

lemma handleToolCall_trace:
  "handleToolCall n a i s = (r, s') \<Longrightarrow>
   tool_calls (trace s') = tool_calls (trace s) \<and> requests (trace s') = requests (trace s)"
  by (auto simp add: handleToolCall_def createTutorial_start_def handleProgressedStep_def
      handleSuggestedHotKey_def log_def Let_def tool_calls_def is_tool_call_def
      split: if_splits)

lemma createTutorial_finish_trace:
  "createTutorial_finish r s = Some (res, s') \<Longrightarrow>
   tool_calls (trace s') = tool_calls (trace s) \<and> requests (trace s') = requests (trace s)"
  by (auto simp add: createTutorial_finish_def createTutorial_ready_def createTutorial_failed_def
      log_def tool_calls_def is_tool_call_def split: resolution.splits)

lemma main_tools_progress:
  assumes "list_all is_tool_use rest" "list_all has_input rest" "ts = pre @ rest"
    and "tool_result_ids rs = tool_use_ids pre" "list_all is_tool_result rs"
    and "tool_calls (trace s1) = tool_calls (trace s0) @ map call_of pre"
    and "requests (trace s1) = requests (trace s0)"
    and "conversation s1 = conversation s0" "\<not> interrupted s1" "isProcessing s1"
  shows "tool_phase s0 ts (length (filter is_create rest)) (main_tools rest rs s1)"
  using assms
proof (induction rest rs s1 arbitrary: pre rule: main_tools.induct)
  case (1 toolResults s)
  have "tool_done s0 ts (main_tools [] toolResults s)"
    unfolding tool_done_def
    using "1.prems"
    by (intro exI[of _ toolResults])
       (simp add: main_after_tools_def sendToClaudeAndSpeak_def push_msg_def Let_def
          tool_calls_def is_tool_call_def)
  then show ?case by (simp add: tool_phase_def)
next
  case (2 name args tid rest toolResults s)
  let ?t = "ToolUse name args tid"
  let ?l = "log (ToolCall name args tid) s"
  note p = "2.prems"
  obtain r s' where h: "handleToolCall name args tid ?l = (r, s')" by force
  have inp: "args \<noteq> JUndefined" using p(2) by simp
  note ret = handleToolCall_ret[OF inp h]
  note fr = handleToolCall_frame[OF h]
  note tr = handleToolCall_trace[OF h]
  have conv: "conversation s' = conversation s0" and ni: "\<not> interrupted s'"
    and ip: "isProcessing s'"
    using frame_fields(1,3,4)[OF fr] p(8,9,10) by (simp_all add: log_def)
  have calls: "tool_calls (trace s') = tool_calls (trace s0) @ map call_of (pre @ [?t])"
    using tr p(6) by (simp add: log_def tool_calls_def is_tool_call_def)
  have reqs: "requests (trace s') = requests (trace s0)"
    using tr p(7) by (simp add: log_def)
  show ?case
  proof (cases "name = ''Create_Tutorial''")
    case False
    then obtain x where r: "r = Returned x" using ret by auto
    have "tool_phase s0 ts (length (filter is_create rest))
            (main_tools rest (toolResults @ [ToolResult tid x]) s')"
      using p(1,2,3,4,5) conv ni ip calls reqs
      by (intro "2.IH"[OF p(9) inp h[symmetric] r, of "pre @ [?t]"]) simp_all
    then show ?thesis using p(9) inp h r False by simp
  next
    case True
    then have r: "r = AwaitingGenerate" using ret by simp
    have "tool_wait s0 ts (Suc (length (filter is_create rest)))
            (suspend (AwaitToolMain ?t rest toolResults) s')"
      unfolding tool_wait_def
      using p(3,4,5) conv ni ip calls reqs
      by (intro exI[of _ pre] exI[of _ ?t] exI[of _ rest] exI[of _ toolResults])
         (simp add: suspend_def)
    then show ?thesis using p(9) inp h r True by (simp add: tool_phase_def)
  qed
qed simp_all

text \<open>An event other than the settlement of a generation leaves the tool loop as it is.\<close>

lemma bystander_step:
  assumes "tool_phase_event e" "\<not> is_generation e" "isProcessing s" "\<not> interrupted s"
    and "conversation s \<noteq> []"
    and "(\<exists>t post rs. task s = Some (AwaitToolMain t post rs)) \<or> task s = Some (AwaitStream True [])"
  shows "task (step e s) = task s \<and> conversation (step e s) = conversation s
       \<and> interrupted (step e s) = interrupted s \<and> isProcessing (step e s) = isProcessing s
       \<and> tool_calls (trace (step e s)) = tool_calls (trace s)
       \<and> requests (trace (step e s)) = requests (trace s)"
proof (cases e)
  case (Resolve r)
  then have "step e s = s"
    using assms
    by (cases r)
       (auto simp add: resolve_def is_check_task_def resume_main_def createTutorial_finish_def
          split: block.splits)
  then show ?thesis by simp
qed (use assms in \<open>auto simp add: startSession_def log_def onPartialTranscript_def
      onCommittedTranscript_def onTTSAudioChunk_def recurringCheck_def onStreamText_def
      tool_calls_def is_tool_call_def\<close>)

lemma tool_wait_cong:
  assumes "tool_wait s0 ts k s"
    and "task s' = task s \<and> conversation s' = conversation s
       \<and> interrupted s' = interrupted s \<and> isProcessing s' = isProcessing s
       \<and> tool_calls (trace s') = tool_calls (trace s)
       \<and> requests (trace s') = requests (trace s)"
  shows "tool_wait s0 ts k s'"
  using assms unfolding tool_wait_def by simp

lemma tool_done_cong:
  assumes "tool_done s0 ts s"
    and "task s' = task s \<and> conversation s' = conversation s
       \<and> interrupted s' = interrupted s \<and> isProcessing s' = isProcessing s
       \<and> tool_calls (trace s') = tool_calls (trace s)
       \<and> requests (trace s') = requests (trace s)"
  shows "tool_done s0 ts s'"
  using assms unfolding tool_done_def by simp

lemma tool_done_step:
  assumes "tool_phase_event e" "tool_done s0 ts s"
  shows "tool_done s0 ts (step e s)"
proof (cases "is_generation e")
  case False
  from assms(2) obtain rs where "conversation s
      = pruneOldImages (sanitizeConversation
          (conversation s0 @ [\<lparr>role = User, content = Blocks rs\<rparr>]))"
    unfolding tool_done_def by blast
  then have "length (conversation s) = Suc (length (conversation s0))" by simp
  then have c: "conversation s \<noteq> []" by auto
  show ?thesis
    using assms c False
    by (intro tool_done_cong[OF assms(2)] bystander_step) (auto simp add: tool_done_def)
next
  case True
  then obtain r where e: "e = Resolve r" by (cases e) auto
  have "step e s = s"
    using assms(2) True unfolding e tool_done_def
    by (cases r) (auto simp add: resolve_def is_check_task_def resume_main_def)
  then show ?thesis using assms(2) by simp
qed

lemma tool_wait_step:
  assumes "tool_phase_event e" "tool_wait s0 ts k s" "conversation s0 \<noteq> []"
    and "list_all is_tool_use ts" "list_all has_input ts"
  shows "tool_phase s0 ts (if is_generation e then k - 1 else k) (step e s)"
proof (cases "is_generation e")
  case False
  have "tool_wait s0 ts k (step e s)"
    using assms False
    by (intro tool_wait_cong[OF assms(2)] bystander_step) (auto simp add: tool_wait_def)
  moreover have "k \<noteq> 0" using assms(2) by (auto simp add: tool_wait_def)
  ultimately show ?thesis using False by (simp add: tool_phase_def)
next
  case True
  then obtain r where e: "e = Resolve r" by (cases e) auto
  from assms(2) obtain pre t post rs where w: "ts = pre @ t # post"
    "task s = Some (AwaitToolMain t post rs)" "k = Suc (length (filter is_create post))"
    "tool_result_ids rs = tool_use_ids pre" "list_all is_tool_result rs"
    "tool_calls (trace s) = tool_calls (trace s0) @ map call_of (pre @ [t])"
    "requests (trace s) = requests (trace s0)" "conversation s = conversation s0"
    "\<not> interrupted s" "isProcessing s"
    unfolding tool_wait_def by blast
  obtain name args tid where t: "t = ToolUse name args tid"
    using assms(4) w(1) by (cases t) simp_all
  have "createTutorial_finish r s \<noteq> None"
    using True unfolding e by (cases r) (simp_all add: createTutorial_finish_def)
  then obtain res x where f: "createTutorial_finish r s = Some (res, x)" by fastforce
  note fr = createTutorial_finish_frame[OF f]
  note tr = createTutorial_finish_trace[OF f]
  have "tool_phase s0 ts (length (filter is_create post))
          (main_tools post (rs @ [ToolResult tid res]) x)"
    using assms(4,5) w tr frame_fields(1,3,4)[OF fr] t
    by (intro main_tools_progress[where pre = "pre @ [t]"]) simp_all
  moreover have "task (main_tools post (rs @ [ToolResult tid res]) x) \<noteq> None"
    using calculation by (auto simp add: tool_phase_def tool_done_def tool_wait_def split: if_splits)
  moreover have "step e s = main_tools post (rs @ [ToolResult tid res]) x"
    using w(2) t f calculation(2) unfolding e
    by (auto simp add: resolve_def is_check_task_def resume_main_def)
  ultimately show ?thesis using True w(3) by simp
qed

lemma tool_phase_step:
  assumes "tool_phase_event e" "tool_phase s0 ts k s" "conversation s0 \<noteq> []"
    and "list_all is_tool_use ts" "list_all has_input ts"
  shows "tool_phase s0 ts (if is_generation e then k - 1 else k) (step e s)"
proof (cases "k = 0")
  case True
  then show ?thesis using assms(1,2) tool_done_step by (simp add: tool_phase_def)
next
  case False
  then show ?thesis using tool_wait_step[OF assms(1) _ assms(3,4,5)] assms(2)
    by (simp add: tool_phase_def)
qed

lemma tool_phase_run:
  assumes "\<forall>e\<in>set es. tool_phase_event e" "tool_phase s0 ts k s" "conversation s0 \<noteq> []"
    and "list_all is_tool_use ts" "list_all has_input ts"
  shows "tool_phase s0 ts (k - length (filter is_generation es)) (run es s)"
  using assms(1,2)
proof (induction es arbitrary: k s)
  case Nil
  then show ?case by (simp add: run_Nil)
next
  case (Cons e es)
  have "tool_phase s0 ts (if is_generation e then k - 1 else k) (step e s)"
    using Cons.prems by (intro tool_phase_step assms(3,4,5)) simp_all
  then have "tool_phase s0 ts ((if is_generation e then k - 1 else k)
                - length (filter is_generation es)) (run es (step e s))"
    using Cons.prems by (intro Cons.IH) simp_all
  then show ?case by (cases "is_generation e") (simp_all add: run_Cons)
qed

lemma results_Nil:
  "list_all is_tool_result rs \<Longrightarrow> tool_result_ids rs = [] \<Longrightarrow> rs = []"
  by (cases rs rule: tool_result_ids.cases) simp_all

lemma results_Cons:
  "list_all is_tool_result rs \<Longrightarrow> tool_result_ids rs = i # ids \<Longrightarrow>
   \<exists>r rs'. rs = ToolResult i r # rs' \<and> list_all is_tool_result rs' \<and> tool_result_ids rs' = ids"
  by (cases rs rule: tool_result_ids.cases) simp_all

lemma three_results:
  assumes "list_all is_tool_result rs" "tool_result_ids rs = [i1, i2, i3]"
  shows "\<exists>r1 r2 r3. rs = [ToolResult i1 r1, ToolResult i2 r2, ToolResult i3 r3]"
proof -
  obtain r1 rs1 where 1: "rs = ToolResult i1 r1 # rs1" "list_all is_tool_result rs1"
    "tool_result_ids rs1 = [i2, i3]"
    using results_Cons[OF assms] by blast
  obtain r2 rs2 where 2: "rs1 = ToolResult i2 r2 # rs2" "list_all is_tool_result rs2"
    "tool_result_ids rs2 = [i3]"
    using results_Cons[OF 1(2,3)] by blast
  obtain r3 rs3 where 3: "rs2 = ToolResult i3 r3 # rs3" "list_all is_tool_result rs3"
    "tool_result_ids rs3 = []"
    using results_Cons[OF 2(2,3)] by blast
  have "rs3 = []" using results_Nil[OF 3(2,3)] .
  then show ?thesis using 1(1) 2(1) 3(1) by blast
qed

text \<open>Sanitization and pruning leave a last user turn without images as it is.\<close>

lemma sanitize_prune_last_user:
  assumes "role m = User" "\<not> has_image m"
  shows "last (pruneOldImages (sanitizeConversation (conv @ [m]))) = m"
proof -
  let ?c = "conv @ [m]"
  let ?n = "length conv"
  have s: "sanitizeConversation ?c ! ?n = m"
    using assms(1) by (simp add: sanitizeConversation_map sanitized_msg_user nth_append
        del: upt_Suc)
  have l: "length (sanitizeConversation ?c) = Suc ?n" by simp
  have "pruneOldImages (sanitizeConversation ?c) ! ?n = m"
    using s assms(2) l by (simp add: pruneOldImages_map del: upt_Suc)
  moreover have "pruneOldImages (sanitizeConversation ?c) \<noteq> []"
    using l by (metis length_0_conv nat.distinct(1) pruneOldImages_length)
  ultimately show ?thesis by (simp add: last_conv_nth)
qed

text \<open>
  C2. The response of a main cycle has exactly three tool-use blocks, each with an input,
  and the cycle was not interrupted when the response was handled. The events that follow
  include no speech of the user and nothing of the next round's stream. Each tutorial tool
  among the three awaits one tutorial generation. Once as many generations have settled as
  there are tutorial tools, the tool dispatcher has been called exactly three times, once per
  tool-use block in their order, exactly two turns have been appended to the history, the
  assistant turn and one user turn that is the last one and holds exactly three tool-result
  blocks with the identifiers of the tool-use blocks in the same order, and the one request
  sent carries that history. Until then the cycle is parked at a tutorial tool, the calls
  made are a non-empty prefix of the three, and no result turn has been appended and no
  request sent: the results are never split.
\<close>

theorem three_tool_uses_one_result_turn:
  assumes "filter is_tool_use rcontent
             = [ToolUse n1 a1 i1, ToolUse n2 a2 i2, ToolUse n3 a3 i3]"
    and "a1 \<noteq> JUndefined" "a2 \<noteq> JUndefined" "a3 \<noteq> JUndefined"
    and "\<not> interrupted s" "isProcessing s"
    and "\<forall>e\<in>set es. tool_phase_event e"
  shows "let s' = run es (main_after_flush c fullText rcontent s);
             assistant = \<lparr>role = Assistant, content = Blocks rcontent\<rparr>;
             calls = [ToolCall n1 a1 i1, ToolCall n2 a2 i2, ToolCall n3 a3 i3]
         in if length (filter is_create (filter is_tool_use rcontent))
                 \<le> length (filter is_generation es)
            then tool_calls (new_actions s s') = calls
               \<and> (\<exists>r1 r2 r3.
                    conversation s'
                      = pruneOldImages (sanitizeConversation (conversation s @
                          [assistant,
                           \<lparr>role = User, content = Blocks [ToolResult i1 r1, ToolResult i2 r2,
                                                            ToolResult i3 r3]\<rparr>]))
                    \<and> last (conversation s')
                        = \<lparr>role = User, content = Blocks [ToolResult i1 r1, ToolResult i2 r2,
                                                           ToolResult i3 r3]\<rparr>)
               \<and> length (conversation s') = length (conversation s) + 2
               \<and> requests (new_actions s s') = [conversation s']
            else (\<exists>t post rs. task s' = Some (AwaitToolMain t post rs))
               \<and> (\<exists>m. 0 < m \<and> m \<le> 3 \<and> tool_calls (new_actions s s') = take m calls)
               \<and> conversation s' = conversation s @ [assistant]
               \<and> requests (new_actions s s') = []"
proof -
  let ?ts = "[ToolUse n1 a1 i1, ToolUse n2 a2 i2, ToolUse n3 a3 i3]"
  let ?calls = "[ToolCall n1 a1 i1, ToolCall n2 a2 i2, ToolCall n3 a3 i3]"
  let ?a = "\<lparr>role = Assistant, content = Blocks rcontent\<rparr>"
  let ?s0 = "push_msg ?a
               (s\<lparr>trace := trace s @ [TtsFlush, TtsCloseStream]
                    @ (if fullText \<noteq> []
                       then [Emit (if c then AgentTextContinue fullText else AgentText fullText)]
                       else [])\<rparr>)"
  let ?m = "main_after_flush c fullText rcontent s"
  let ?s' = "run es ?m"
  let ?k = "length (filter is_create ?ts) - length (filter is_generation es)"
  have m: "?m = main_tools ?ts [] ?s0"
    using assms(1) by (simp add: main_after_flush_def Let_def)
  have c0: "conversation ?s0 = conversation s @ [?a]"
    and t0: "tool_calls (trace ?s0) = tool_calls (trace s)"
    and r0: "requests (trace ?s0) = requests (trace s)"
    by (simp_all add: push_msg_def tool_calls_def is_tool_call_def)
  have "tool_phase ?s0 ?ts (length (filter is_create ?ts)) (main_tools ?ts [] ?s0)"
    using assms(2-6) by (intro main_tools_progress[where pre = "[]"]) (simp_all add: push_msg_def)
  then have ph: "tool_phase ?s0 ?ts ?k ?s'"
    unfolding m using assms(2-4,7) c0 by (intro tool_phase_run) simp_all
  have "ext s ?m" by simp
  then obtain as where as: "trace ?m = trace s @ as" by (auto simp add: ext_def)
  obtain bs where "trace ?s' = trace ?m @ bs" using run_trace by blast
  then have tr: "trace ?s' = trace s @ new_actions s ?s'"
    using as by (simp add: new_actions_def)
  show ?thesis
  proof (cases "length (filter is_create ?ts) \<le> length (filter is_generation es)")
    case True
    then have "tool_done ?s0 ?ts ?s'" using ph by (simp add: tool_phase_def)
    then obtain rs where d: "tool_result_ids rs = [i1, i2, i3]" "list_all is_tool_result rs"
      "tool_calls (trace ?s') = tool_calls (trace s) @ ?calls"
      "conversation ?s' = pruneOldImages (sanitizeConversation
          (conversation s @ [?a, \<lparr>role = User, content = Blocks rs\<rparr>]))"
      "requests (trace ?s') = requests (trace s) @ [conversation ?s']"
      unfolding tool_done_def c0 t0 r0 by auto
    obtain r1 r2 r3 where rs: "rs = [ToolResult i1 r1, ToolResult i2 r2, ToolResult i3 r3]"
      using three_results[OF d(2,1)] by blast
    let ?u = "\<lparr>role = User, content = Blocks [ToolResult i1 r1, ToolResult i2 r2,
                                                  ToolResult i3 r3]\<rparr>"
    have la: "last (conversation ?s') = ?u"
      using sanitize_prune_last_user[of ?u "conversation s @ [?a]"] d(4) rs
      by (simp add: has_image_def)
    have le: "length (conversation ?s') = length (conversation s) + 2"
      using d(4) by simp
    have tc: "tool_calls (new_actions s ?s') = ?calls"
      using d(3) by (subst (asm) tr) simp
    have rq: "requests (new_actions s ?s') = [conversation ?s']"
      using d(5) by (subst (asm) tr) simp
    have "\<exists>r1 r2 r3. conversation ?s' = pruneOldImages (sanitizeConversation (conversation s @
              [?a, \<lparr>role = User, content = Blocks [ToolResult i1 r1, ToolResult i2 r2,
                                                      ToolResult i3 r3]\<rparr>]))
            \<and> last (conversation ?s')
                 = \<lparr>role = User, content = Blocks [ToolResult i1 r1, ToolResult i2 r2,
                                                     ToolResult i3 r3]\<rparr>"
      using d(4) la unfolding rs by blast
    then show ?thesis using True tc le rq assms(1) unfolding Let_def by simp
  next
    case False
    then have "tool_wait ?s0 ?ts ?k ?s'" using ph by (simp add: tool_phase_def)
    then obtain pre t post rs where w: "?ts = pre @ t # post"
      "task ?s' = Some (AwaitToolMain t post rs)"
      "tool_calls (trace ?s') = tool_calls (trace s) @ map call_of (pre @ [t])"
      "requests (trace ?s') = requests (trace s)"
      "conversation ?s' = conversation s @ [?a]"
      unfolding tool_wait_def c0 t0 r0 by blast
    have "map call_of (pre @ [t]) = take (Suc (length pre)) (map call_of ?ts)"
      by (subst w(1)) simp
    then have pc: "map call_of (pre @ [t]) = take (Suc (length pre)) ?calls" by simp
    have "length ?ts = length pre + Suc (length post)" by (subst w(1)) simp
    then have lp: "Suc (length pre) \<le> 3" by simp
    have tc: "tool_calls (new_actions s ?s') = take (Suc (length pre)) ?calls"
      using w(3) unfolding pc by (subst (asm) tr) simp
    have rq: "requests (new_actions s ?s') = []"
      using w(4) by (subst (asm) tr) simp
    have "\<exists>m. 0 < m \<and> m \<le> 3 \<and> tool_calls (new_actions s ?s') = take m ?calls"
      using tc lp by blast
    then show ?thesis using False w(2,5) rq assms(1) unfolding Let_def by simp
  qed
qed

text \<open>
  The theorem for the first response of a session, with a hotkey tool, the tutorial tool and
  an unknown tool: a frame arrives and the tutorial generation fails.
\<close>

theorem three_tool_uses_one_result_turn_witness:
  "(let s = step (StartSession (JObj [])) (init example_config);
        s' = run [Frame ''f1'', Resolve (GenerateFailed ''busy'')]
               (main_after_flush False [] example_response s);
        assistant = \<lparr>role = Assistant, content = Blocks example_response\<rparr>;
        calls = [ToolCall ''Suggested_HotKey'' (JObj [(''key_combo'', JStr ''G'')]) ''t1'',
                 ToolCall ''Create_Tutorial'' (JObj [(''object_label'', JStr ''chair'')]) ''t2'',
                 ToolCall ''Open_File'' (JObj []) ''t3'']
    in tool_calls (new_actions s s') = calls
       \<and> (\<exists>r1 r2 r3.
            conversation s'
              = pruneOldImages (sanitizeConversation (conversation s @
                  [assistant,
                   \<lparr>role = User, content = Blocks [ToolResult ''t1'' r1, ToolResult ''t2'' r2,
                                                    ToolResult ''t3'' r3]\<rparr>]))
            \<and> last (conversation s')
                = \<lparr>role = User, content = Blocks [ToolResult ''t1'' r1, ToolResult ''t2'' r2,
                                                   ToolResult ''t3'' r3]\<rparr>)
       \<and> length (conversation s') = length (conversation s) + 2
       \<and> requests (new_actions s s') = [conversation s'])"
proof -
  let ?s = "step (StartSession (JObj [])) (init example_config)"
  let ?es = "[Frame ''f1'', Resolve (GenerateFailed ''busy'')]"
  have f: "filter is_tool_use example_response
      = [ToolUse ''Suggested_HotKey'' (JObj [(''key_combo'', JStr ''G'')]) ''t1'',
         ToolUse ''Create_Tutorial'' (JObj [(''object_label'', JStr ''chair'')]) ''t2'',
         ToolUse ''Open_File'' (JObj []) ''t3'']"
    by (simp add: example_response_def)
  have a: "JObj [(''key_combo'', JStr ''G'')] \<noteq> JUndefined"
    "JObj [(''object_label'', JStr ''chair'')] \<noteq> JUndefined" "JObj [] \<noteq> JUndefined"
    by simp_all
  have i: "\<not> interrupted ?s" and p: "isProcessing ?s"
    unfolding session_start by (simp_all add: init_def)
  have e: "\<forall>e\<in>set ?es. tool_phase_event e" by simp
  have g: "length (filter is_create (filter is_tool_use example_response))
      \<le> length (filter is_generation ?es)"
    unfolding f by simp
  note th = three_tool_uses_one_result_turn[OF f a i p e, of False "[]"]
  show ?thesis
    using th unfolding Let_def by (simp only: g if_True)
qed

end
